theory Spec2Isabelle
  imports Main "HOL-Library.Sublist" "HOL-Library.Word"
begin

section \<open>Executive.cpp: the code-analysis executive\<close>

text \<open>
  A shallow embedding of \<^verbatim>\<open>src/CodeAnalyzerEx/Analyzer/Executive.cpp\<close>: the
  application-specific file manager \<^verbatim>\<open>AnalFileMgr\<close>, the class
  \<^verbatim>\<open>CodeAnalysisExecutive\<close> and \<^verbatim>\<open>main\<close>.

  The parser, the tokenizer, the repository, the loggers, the file-system library and the
  directory search live in other files of the repository. What the executive reads from
  them is a field of the record \<open>env\<close>; what it does to them (a logger write, a call of
  the parser, output on \<open>std::cout\<close>) is an event appended to the trace of the state, in
  the order in which the statements run.
\<close>

subsection \<open>Types and strings\<close>

type_synonym Path = string
type_synonym File = string
type_synonym Files = "File list"
type_synonym Pattern = string
type_synonym Patterns = "Pattern list"
type_synonym Ext = string
type_synonym Slocs = nat

text \<open>
  \<^verbatim>\<open>std::unordered_map<Pattern, Files>\<close>: the entries of the table, one per key, in the
  order in which a range-for visits them. C++ leaves that order unspecified. The theorems
  of the claims are stated for every table, whatever its order, or key by key; a concrete
  instance either names its table or runs a search after which every loop selects the
  files of one key.
\<close>

type_synonym FileMap = "(Pattern \<times> Files) list"

definition nl :: char where "nl = CHR 0x0A"
definition cr :: char where "cr = CHR 0x0D"
definition dq :: char where "dq = CHR 0x22"
definition bslash :: char where "bslash = CHR 0x5C"

text \<open>
  \<^verbatim>\<open>str.find(text)\<close>: the least position at which \<open>text\<close> occurs in \<open>str\<close>;
  \<open>None\<close> stands for \<^verbatim>\<open>std::string::npos\<close>.
\<close>

fun str_find :: "string \<Rightarrow> string \<Rightarrow> nat option" where
  "str_find [] text = (if text = [] then Some 0 else None)"
| "str_find (c # cs) text =
     (if take (length text) (c # cs) = text then Some 0
      else map_option Suc (str_find cs text))"

text \<open>
  \<^verbatim>\<open>contains(str, text)\<close>, lines 247-252: \<^verbatim>\<open>str.find(text) < str.length()\<close>.
  \<^verbatim>\<open>npos\<close> is the largest \<^verbatim>\<open>size_t\<close>, so it is never below a length.
\<close>

definition contains :: "string \<Rightarrow> string \<Rightarrow> bool" where
  "contains str text =
     (case str_find str text of None \<Rightarrow> False | Some pos \<Rightarrow> pos < length str)"

subsection \<open>Selecting files by pattern key\<close>

text \<open>
  The three selectors (lines 255-297) are one loop with three different texts: clear the
  member vector, visit every entry of \<^verbatim>\<open>fileMap_\<close>, and append all files of an entry whose
  key contains the text. \<open>collectFiles\<close> is that loop with the vector as accumulator.
\<close>

fun collectFiles :: "string \<Rightarrow> FileMap \<Rightarrow> Files \<Rightarrow> Files" where
  "collectFiles text [] acc = acc"
| "collectFiles text (item # rest) acc =
     collectFiles text rest (if contains (fst item) text then acc @ snd item else acc)"

definition cppHeaderFiles :: "FileMap \<Rightarrow> Files" where
  "cppHeaderFiles fm = collectFiles ''*.h'' fm []"

definition cppImplemFiles :: "FileMap \<Rightarrow> Files" where
  "cppImplemFiles fm = collectFiles ''*.cpp'' fm []"

definition csharpFiles :: "FileMap \<Rightarrow> Files" where
  "csharpFiles fm = collectFiles ''*.cs'' fm []"

subsection \<open>The collaborators and the state\<close>

datatype Language = Cpp | CSharp

datatype logger = Rslt | Demo | Dbug

text \<open>The callbacks that \<^verbatim>\<open>FileMgr::search\<close> makes on its derived class.\<close>

datatype notification = DirNote Path | FileNote File

text \<open>
  The calls of \<^verbatim>\<open>ProcessCommandLine\<close> that can throw inside its \<^verbatim>\<open>try\<close> block:
  \<^verbatim>\<open>Path::getFullFileSpec\<close> on the first argument, \<^verbatim>\<open>Directory::exists\<close> on the
  path, and the \<^verbatim>\<open>push_back\<close> for the argument \<^verbatim>\<open>argv[i]\<close>.
\<close>

datatype cmdCall = FullFileSpec string | DirExists Path | PushBack nat

text \<open>
  What the executive does to its collaborators, one event per statement:
  output on \<^verbatim>\<open>std::cout\<close>, calls of the three static loggers, assignments to the
  repository's per-file fields and to the line-count table, the call
  \<^verbatim>\<open>configure_.Attach(file)\<close> with its result, the loop
  \<^verbatim>\<open>while (pParser_->next()) pParser_->parse();\<close> on the attached file, and the
  calls that \<^verbatim>\<open>main\<close> makes after the parse.
\<close>

datatype event =
    Cout string
  | LogWrite logger string
  | LogFlush logger
  | LogStart logger
  | LogStop logger
  | LogAttachCout logger
  | LogAttachFile logger Path
  | OpenStream Path
  | SetPackage string
  | SetLanguage Language
  | SetCurrentPath Path
  | Attach File bool
  | Parse File
  | SetSloc File Slocs
  | ComplexityEval
  | DependencyTable "string list"
  | CallingPublisher
  | DemonstraingRequirements
  | GetChar

text \<open>
  What the executive reads from code outside this file. \<open>running lg tr\<close> is the answer
  of \<^verbatim>\<open>StaticLogger::running()\<close> after the events \<open>tr\<close>; \<open>searchCalls\<close> is the sequence
  of callbacks of one \<^verbatim>\<open>FileMgr::search()\<close>; \<open>parserBuilt\<close> says that
  \<^verbatim>\<open>configure_.Build()\<close> returned a parser; \<open>currentLineCount f\<close> is the tokenizer's line
  count when the parse of \<open>f\<close> has ended; \<open>streamGood\<close> is \<^verbatim>\<open>pLogStrm_->good()\<close>.
  The file system does not change during a run: whether a file can be attached, and its
  line count, depend on the file alone.

  The collaborators can also throw. The executive has two handlers for
  \<^verbatim>\<open>std::exception\<close>, one in \<^verbatim>\<open>ProcessCommandLine\<close> and one in \<^verbatim>\<open>main\<close>, and what
  is thrown is taken to be a \<^verbatim>\<open>std::exception\<close>, as the executive's own throw is.
  \<open>cmdLineThrows c\<close> is the message of the exception that the call \<open>c\<close> of
  \<^verbatim>\<open>ProcessCommandLine\<close> throws, if it throws. \<open>mainThrows argv = Some (k, what)\<close> says
  that in the run on \<open>argv\<close> a call inside the \<^verbatim>\<open>try\<close> block of \<^verbatim>\<open>main\<close>, after
  \<^verbatim>\<open>ProcessCommandLine\<close> has returned, throws \<open>what\<close> when \<open>k\<close> events of the block have
  happened; it has no effect when the block has no more than \<open>k\<close> events.
\<close>

record env =
  getExt :: "string \<Rightarrow> Ext"
  getName :: "string \<Rightarrow> string"
  getFullFileSpec :: "string \<Rightarrow> Path"
  dirExists :: "Path \<Rightarrow> bool"
  searchCalls :: "Path \<Rightarrow> Patterns \<Rightarrow> notification list"
  parserBuilt :: bool
  attach :: "File \<Rightarrow> bool"
  currentLineCount :: "File \<Rightarrow> Slocs"
  running :: "logger \<Rightarrow> event list \<Rightarrow> bool"
  streamGood :: "Path \<Rightarrow> bool"
  initialLanguage :: Language
  cmdLineThrows :: "cmdCall \<Rightarrow> string option"
  mainThrows :: "string list \<Rightarrow> (nat \<times> string) option"

text \<open>
  The members of \<^verbatim>\<open>CodeAnalysisExecutive\<close> that this file uses (named without
  the trailing underscore of the source), the three per-file
  fields of the repository singleton behind \<^verbatim>\<open>pRepo_\<close>, and the trace.
  \<^verbatim>\<open>slocMap_\<close> is a table from package name to line count. The counters and the
  line counts are \<^verbatim>\<open>size_t\<close>; the executive only increments, copies and stores
  them, and the callbacks of one directory search and the lines of one file stay far
  below the range of \<^verbatim>\<open>size_t\<close>, so they are natural numbers here.
\<close>

record exec =
  path :: Path
  patterns :: Patterns
  options :: "char list"
  fileMap :: FileMap
  slocMap :: "File \<rightharpoonup> Slocs"
  numFiles :: nat
  numDirs :: nat
  package :: string
  language :: Language
  currentPath :: Path
  trace :: "event list"

definition emit :: "event \<Rightarrow> exec \<Rightarrow> exec" where
  "emit e st = st\<lparr>trace := trace st @ [e]\<rparr>"

text \<open>The assignments through \<^verbatim>\<open>pRepo_\<close>: to \<^verbatim>\<open>package()\<close>, \<^verbatim>\<open>language()\<close> and \<^verbatim>\<open>currentPath()\<close>.\<close>

definition assignPackage :: "string \<Rightarrow> exec \<Rightarrow> exec" where
  "assignPackage p st = emit (SetPackage p) (st\<lparr>package := p\<rparr>)"

definition assignLanguage :: "Language \<Rightarrow> exec \<Rightarrow> exec" where
  "assignLanguage l st = emit (SetLanguage l) (st\<lparr>language := l\<rparr>)"

definition assignCurrentPath :: "Path \<Rightarrow> exec \<Rightarrow> exec" where
  "assignCurrentPath f st = emit (SetCurrentPath f) (st\<lparr>currentPath := f\<rparr>)"

text \<open>\<^verbatim>\<open>slocMap_[pRepo_->package()] = slocs;\<close>\<close>

definition recordSloc :: "Slocs \<Rightarrow> exec \<Rightarrow> exec" where
  "recordSloc slocs st =
     emit (SetSloc (package st) slocs) (st\<lparr>slocMap := (slocMap st)(package st \<mapsto> slocs)\<rparr>)"

text \<open>\<^verbatim>\<open>CodeAnalysisExecutive::setLanguage\<close>, lines 353-360; no function of this file calls it.\<close>

definition setLanguage :: "env \<Rightarrow> File \<Rightarrow> exec \<Rightarrow> exec" where
  "setLanguage en f st =
     (let ext = getExt en f
      in if ext = ''h'' \<or> ext = ''cpp'' then assignLanguage Cpp st
         else if ext = ''cs'' then assignLanguage CSharp st
         else st)"

text \<open>\<^verbatim>\<open>std::setw(w)\<close> under \<^verbatim>\<open>std::left\<close> and under \<^verbatim>\<open>std::right\<close>.\<close>

definition setwLeft :: "nat \<Rightarrow> string \<Rightarrow> string" where
  "setwLeft w s = s @ replicate (w - length s) (CHR '' '')"

definition setwRight :: "nat \<Rightarrow> string \<Rightarrow> string" where
  "setwRight w s = replicate (w - length s) (CHR '' '') @ s"

text \<open>The lambda \<^verbatim>\<open>trunc\<close>: \<^verbatim>\<open>in.substr(0, count)\<close>.\<close>

definition trunc :: "string \<Rightarrow> nat \<Rightarrow> string" where
  "trunc s count = take count s"

subsection \<open>AnalFileMgr\<close>

text \<open>
  The members of \<^verbatim>\<open>AnalFileMgr\<close>: the directory of the last \<open>dir\<close> callback
  (\<^verbatim>\<open>d_\<close>), the executive's file table, held by reference, and the two counters.
\<close>

record fileMgr =
  mgr_d :: Path
  mgr_fileMap :: FileMap
  mgr_numFiles :: nat
  mgr_numDirs :: nat

text \<open>
  \<^verbatim>\<open>fileMap_[p].push_back(fqf)\<close>: the entry of key \<open>p\<close> gets \<open>fqf\<close> at its end; a key
  that is not in the table yet gets a new entry (put last here; its place in the
  iteration order is unspecified in C++).
\<close>

fun pushFile :: "Pattern \<Rightarrow> File \<Rightarrow> FileMap \<Rightarrow> FileMap" where
  "pushFile p fqf [] = [(p, [fqf])]"
| "pushFile p fqf ((k, fs) # rest) =
     (if k = p then (k, fs @ [fqf]) # rest else (k, fs) # pushFile p fqf rest)"

text \<open>
  The constructor, lines 58-59. The directory member \<^verbatim>\<open>d_\<close> is a string that the
  constructor does not mention, so it starts empty.
\<close>

definition AnalFileMgr :: "Path \<Rightarrow> FileMap \<Rightarrow> fileMgr" where
  "AnalFileMgr pth fm =
     \<lparr>mgr_d = [], mgr_fileMap = fm, mgr_numFiles = 0, mgr_numDirs = 0\<rparr>"

text \<open>\<^verbatim>\<open>AnalFileMgr::file\<close>, lines 63-70.\<close>

definition mgr_file :: "env \<Rightarrow> File \<Rightarrow> fileMgr \<Rightarrow> fileMgr" where
  "mgr_file en f m =
     (let fqf = mgr_d m @ [bslash] @ f;
          ext = getExt en fqf;
          p = ''*.'' @ ext
      in m\<lparr>mgr_fileMap := pushFile p fqf (mgr_fileMap m),
            mgr_numFiles := Suc (mgr_numFiles m)\<rparr>)"

text \<open>\<^verbatim>\<open>AnalFileMgr::dir\<close>, lines 73-77.\<close>

definition mgr_dir :: "Path \<Rightarrow> fileMgr \<Rightarrow> fileMgr" where
  "mgr_dir d m = m\<lparr>mgr_d := d, mgr_numDirs := Suc (mgr_numDirs m)\<rparr>"

fun notify :: "env \<Rightarrow> notification \<Rightarrow> fileMgr \<Rightarrow> fileMgr" where
  "notify en (DirNote d) m = mgr_dir d m"
| "notify en (FileNote f) m = mgr_file en f m"

text \<open>A search delivers its callbacks one after the other.\<close>

definition mgr_search :: "env \<Rightarrow> notification list \<Rightarrow> fileMgr \<Rightarrow> fileMgr" where
  "mgr_search en ns m = fold (notify en) ns m"

text \<open>
  \<^verbatim>\<open>getSourceFiles\<close>, lines 236-244. The manager holds \<^verbatim>\<open>fileMap_\<close> by reference, so
  the table it has filled is the executive's.
\<close>

definition getSourceFiles :: "env \<Rightarrow> exec \<Rightarrow> exec" where
  "getSourceFiles en st =
     (let fm = mgr_search en (searchCalls en (path st) (patterns st))
                 (AnalFileMgr (path st) (fileMap st))
      in st\<lparr>fileMap := mgr_fileMap fm,
             numFiles := mgr_numFiles fm,
             numDirs := mgr_numDirs fm\<rparr>)"

text \<open>
  \<^verbatim>\<open>fileSLOCs\<close>, lines 300-303: \<^verbatim>\<open>return slocMap_[file];\<close>. The subscript of a
  standard map gives the stored value; for a key without an entry it first stores a
  value-initialised one, here 0.
\<close>

definition fileSLOCs :: "File \<Rightarrow> exec \<Rightarrow> Slocs \<times> exec" where
  "fileSLOCs f st =
     (case slocMap st f of
        Some n \<Rightarrow> (n, st)
      | None \<Rightarrow> (0, st\<lparr>slocMap := (slocMap st)(f \<mapsto> 0)\<rparr>))"

subsection \<open>Parsing the files\<close>

text \<open>\<^verbatim>\<open>showActivity\<close> and \<^verbatim>\<open>clearActivity\<close>, lines 318-337.\<close>

definition showActivity :: "env \<Rightarrow> File \<Rightarrow> exec \<Rightarrow> exec" where
  "showActivity en f st =
     (if running en Rslt (trace st)
      then emit (Cout (cr # ''     Processing file: '' @ setwLeft 80 (trunc f 80))) st
      else st)"

definition clearActivity :: "env \<Rightarrow> exec \<Rightarrow> exec" where
  "clearActivity en st =
     (if running en Rslt (trace st)
      then emit (Cout (cr # ''                      '' @ setwLeft 80 (replicate 80 (CHR '' '')))) st
      else st)"

definition couldNotOpen :: "File \<Rightarrow> string" where
  "couldNotOpen f = nl # ''  could not open file '' @ f @ [nl]"

definition openingFile :: "string \<Rightarrow> string" where
  "openingFile pkg = [nl, nl] @ ''  opening file '' @ [dq] @ pkg @ [dq]"

text \<open>
  The two conditional writes that follow a successful attach in each of the three loops:
  to \<open>Demo\<close> when \<open>Rslt\<close> is not running, then to \<open>Dbug\<close> when neither \<open>Demo\<close> nor
  \<open>Rslt\<close> is running.
\<close>

definition announce :: "env \<Rightarrow> exec \<Rightarrow> exec" where
  "announce en st =
     (let st1 = (if \<not> running en Rslt (trace st)
                 then emit (LogWrite Demo (openingFile (package st))) st else st)
      in if \<not> running en Demo (trace st1) \<and> \<not> running en Rslt (trace st1)
         then emit (LogWrite Dbug (openingFile (package st1))) st1 else st1)"

text \<open>
  The end of each loop body: the parse loop on the attached file, then the tokenizer's
  line count goes into the table under the current package name.
\<close>

definition parseAndCount :: "env \<Rightarrow> File \<Rightarrow> exec \<Rightarrow> exec" where
  "parseAndCount en f st = recordSloc (currentLineCount en f) (emit (Parse f) st)"

text \<open>The body of the first loop, lines 363-376.\<close>

definition headerBody :: "env \<Rightarrow> bool \<Rightarrow> File \<Rightarrow> exec \<Rightarrow> exec" where
  "headerBody en showProc f st =
     (let st1 = (if showProc then showActivity en f st else st);
          st2 = assignPackage (getName en f) st1
      in if \<not> attach en f
         then emit (LogFlush Rslt) (emit (LogWrite Rslt (couldNotOpen f)) (emit (Attach f False) st2))
         else
           (let st3 = emit (LogFlush Dbug) (emit (LogFlush Demo) (emit (LogFlush Rslt)
                        (emit (Attach f True) st2)));
                st4 = announce en st3;
                st5 = assignCurrentPath f (assignLanguage Cpp st4)
            in parseAndCount en f st5))"

text \<open>The body of the second loop, lines 377-393.\<close>

definition implemBody :: "env \<Rightarrow> bool \<Rightarrow> File \<Rightarrow> exec \<Rightarrow> exec" where
  "implemBody en showProc f st =
     (let st1 = (if showProc then showActivity en f st else st);
          st2 = assignPackage (getName en f) st1
      in if \<not> attach en f
         then emit (LogFlush Rslt) (emit (LogWrite Rslt (couldNotOpen f)) (emit (Attach f False) st2))
         else
           (let st3 = emit (Attach f True) st2;
                st4 = announce en st3;
                st5 = assignCurrentPath f (assignLanguage Cpp st4)
            in parseAndCount en f st5))"

text \<open>The body of the third loop, lines 394-407.\<close>

definition csharpBody :: "env \<Rightarrow> bool \<Rightarrow> File \<Rightarrow> exec \<Rightarrow> exec" where
  "csharpBody en showProc f st =
     (let st1 = (if showProc then showActivity en f st else st);
          st2 = assignPackage (getName en f) st1
      in if \<not> attach en f
         then emit (LogWrite Rslt (couldNotOpen f)) (emit (Attach f False) st2)
         else
           (let st3 = emit (Attach f True) st2;
                st4 = announce en st3;
                st5 = assignCurrentPath f (assignLanguage CSharp st4)
            in parseAndCount en f st5))"

text \<open>
  \<^verbatim>\<open>processSourceCode\<close>, lines 362-411: the three range-for loops over the three
  selections of the file table, each selection taken when its loop starts, and the two
  statements after the loops.
\<close>

definition processSourceCode :: "env \<Rightarrow> bool \<Rightarrow> exec \<Rightarrow> exec" where
  "processSourceCode en showProc st =
     (let st1 = fold (headerBody en showProc) (cppHeaderFiles (fileMap st)) st;
          st2 = fold (implemBody en showProc) (cppImplemFiles (fileMap st1)) st1;
          st3 = fold (csharpBody en showProc) (csharpFiles (fileMap st2)) st2;
          st4 = (if showProc then clearActivity en st3 else st3)
      in emit (LogWrite Rslt (cr # ''  '' @ setwLeft 77 '' '')) st4)"

text \<open>\<^verbatim>\<open>complexityAnalysis\<close>, lines 414-418.\<close>

definition complexityAnalysis :: "exec \<Rightarrow> exec" where
  "complexityAnalysis st = emit ComplexityEval st"

subsection \<open>The command line\<close>

text \<open>\<^verbatim>\<open>showUsage\<close>, lines 139-160.\<close>

definition usageText :: string where
  "usageText =
     nl # ''  Usage:'' @
     nl # ''  Command Line Arguments are:'' @
     nl # ''  - 1st: path to subdirectory containing files to analyze'' @
     nl # ''  - remaining non-option arguments are file patterns, e.g., *.h and/or *.cpp, etc.'' @
     nl # ''  - must have at least one file pattern to specify what to process'' @
     nl # ''  - option arguments have the format '' @ [dq, dq] @ ''/x'' @ [dq] @
          '' , where x is one of the options:'' @
     nl # ''    - m : display function metrics'' @
     nl # ''    - s : display file sizes'' @
     nl # ''    - a : display Abstract Syntax Tree'' @
     nl # ''    - r : set logger to display results'' @
     nl # ''    - d : set logger to display demo outputs'' @
     nl # ''    - b : set logger to display debug outputs'' @
     nl # ''    - f : write all logs to logfile.txt'' @
     nl # ''  A metrics summary is always shown, independent of any options used or not used'' @
     [nl, nl]"

definition showUsage :: "exec \<Rightarrow> exec" where
  "showUsage st = emit (Cout usageText) st"

text \<open>
  \<^verbatim>\<open>argv[i][j]\<close> on a C string: the characters of the argument, then the
  terminating NUL. The executive reads index 0, and index 1 only after index 0 was
  \<^verbatim>\<open>'/'\<close>, so it never reads past the terminator.
\<close>

definition cstrAt :: "string \<Rightarrow> nat \<Rightarrow> char" where
  "cstrAt s j = (if j < length s then s ! j else CHR 0x00)"

text \<open>The body of the loop of lines 195-201.\<close>

definition recordArg :: "string \<Rightarrow> exec \<Rightarrow> exec" where
  "recordArg a st =
     (if cstrAt a 0 = CHR ''/''
      then st\<lparr>options := options st @ [cstrAt a 1]\<rparr>
      else st\<lparr>patterns := patterns st @ [a]\<rparr>)"

text \<open>
  The loop of lines 195-201 from the argument \<^verbatim>\<open>argv[i]\<close> on. A \<^verbatim>\<open>push_back\<close> that
  throws ends the loop: \<open>Inl\<close> carries the message and the state reached.
\<close>

fun recordArgs :: "env \<Rightarrow> nat \<Rightarrow> string list \<Rightarrow> exec \<Rightarrow> string \<times> exec + exec" where
  "recordArgs en i [] st = Inr st"
| "recordArgs en i (a # as) st =
     (case cmdLineThrows en (PushBack i) of
        Some what \<Rightarrow> Inl (what, st)
      | None \<Rightarrow> recordArgs en (Suc i) as (recordArg a st))"

text \<open>The handler of lines 208-213.\<close>

definition parsingError :: "string \<Rightarrow> exec \<Rightarrow> exec" where
  "parsingError what st =
     emit (Cout (nl # ''  '' @ what @ [nl, nl]))
       (emit (Cout ([nl, nl] @ ''  command line argument parsing error:'')) st)"

text \<open>
  \<^verbatim>\<open>ProcessCommandLine\<close>, lines 181-215; \<open>argv\<close> is the whole argument vector, the
  program name first, and \<open>argc\<close> its length. An exception inside the \<^verbatim>\<open>try\<close> block
  goes to the handler, which prints the message and returns false; what the block has
  assigned before stays assigned.
\<close>

definition ProcessCommandLine :: "env \<Rightarrow> string list \<Rightarrow> exec \<Rightarrow> bool \<times> exec" where
  "ProcessCommandLine en argv st =
     (if length argv < 2 then (False, showUsage st)
      else
        (case cmdLineThrows en (FullFileSpec (argv ! 1)) of
           Some what \<Rightarrow> (False, parsingError what st)
         | None \<Rightarrow>
             (let st1 = st\<lparr>path := getFullFileSpec en (argv ! 1)\<rparr>
              in case cmdLineThrows en (DirExists (path st1)) of
                   Some what \<Rightarrow> (False, parsingError what st1)
                 | None \<Rightarrow>
                     if \<not> dirExists en (path st1)
                     then (False, emit (Cout ([nl, nl] @ ''  path '' @ [dq] @ path st1 @ [dq] @
                                                '' does not exist'' @ [nl, nl])) st1)
                     else
                       (case recordArgs en 2 (drop 2 argv) st1 of
                          Inl (what, st2) \<Rightarrow> (False, parsingError what st2)
                        | Inr st2 \<Rightarrow>
                            if length (patterns st2) = 0 then (False, showUsage st2)
                            else (True, st2)))))"

text \<open>
  \<^verbatim>\<open>showCommandLineArguments\<close>, lines 163-172. \<^verbatim>\<open>main\<close> calls it after
  \<^verbatim>\<open>ProcessCommandLine\<close> has succeeded, with at least three arguments.
\<close>

definition showCommandLineArguments :: "env \<Rightarrow> string list \<Rightarrow> exec \<Rightarrow> exec" where
  "showCommandLineArguments en argv st =
     emit (LogFlush Rslt)
       (emit (LogWrite Rslt
                (nl # ''     Path: '' @ [dq] @ getFullFileSpec en (argv ! 1) @ [dq, nl] @
                 ''     Args: '' @
                 concat (map (\<lambda>a. a @ '', '') (butlast (drop 2 argv))) @ last argv)) st)"

subsection \<open>The loggers\<close>

definition getAnalysisPath :: "exec \<Rightarrow> Path" where
  "getAnalysisPath st = path st"

text \<open>\<^verbatim>\<open>setLogFile\<close>, lines 790-802.\<close>

definition setLogFile :: "env \<Rightarrow> File \<Rightarrow> exec \<Rightarrow> exec" where
  "setLogFile en f st =
     (let p = getAnalysisPath st @ [bslash] @ f;
          st1 = emit (OpenStream p) st
      in if streamGood en p
         then emit (LogAttachFile Dbug p) (emit (LogAttachFile Demo p)
                (emit (LogAttachFile Rslt p) st1))
         else emit (LogWrite Rslt (nl # ''  couldn'' @ [CHR 0x27] @
                                      ''t open logFile.txt for writing'')) st1)"

text \<open>One turn of the loop of \<^verbatim>\<open>setDisplayModes\<close>, lines 730-755.\<close>

definition displayMode :: "env \<Rightarrow> char \<Rightarrow> exec \<Rightarrow> exec" where
  "displayMode en opt st =
     (if opt = CHR ''r'' then emit (LogStart Rslt) st
      else if opt = CHR ''d'' then emit (LogStart Demo) st
      else if opt = CHR ''b'' then emit (LogStart Dbug) st
      else if opt = CHR ''f'' then setLogFile en ''logFile.txt'' st
      else if opt \<noteq> CHR ''a'' \<and> opt \<noteq> CHR ''b'' \<and> opt \<noteq> CHR ''d'' \<and> opt \<noteq> CHR ''f'' \<and>
              opt \<noteq> CHR ''m'' \<and> opt \<noteq> CHR ''r'' \<and> opt \<noteq> CHR ''s''
      then emit (Cout ([nl, nl] @ ''  unknown option '' @ [opt] @ [nl, nl])) st
      else st)"

definition setDisplayModes :: "env \<Rightarrow> exec \<Rightarrow> exec" where
  "setDisplayModes en st = fold (displayMode en) (options st) st"

text \<open>\<^verbatim>\<open>startLogger(std::cout)\<close>, \<^verbatim>\<open>flushLogger\<close> and \<^verbatim>\<open>stopLogger\<close>, lines 758-784.\<close>

definition startLogger :: "env \<Rightarrow> exec \<Rightarrow> exec" where
  "startLogger en st =
     setDisplayModes en
       (emit (LogAttachCout Dbug) (emit (LogAttachCout Demo) (emit (LogAttachCout Rslt) st)))"

definition flushLogger :: "exec \<Rightarrow> exec" where
  "flushLogger st = emit (LogFlush Dbug) (emit (LogFlush Demo) (emit (LogFlush Rslt) st))"

definition stopLogger :: "exec \<Rightarrow> exec" where
  "stopLogger st =
     emit (LogStop Dbug) (emit (LogStop Demo) (emit (LogStop Rslt)
       (emit (LogFlush Dbug) (emit (LogFlush Demo) (emit (LogFlush Rslt) st)))))"

subsection \<open>The constructor and main\<close>

text \<open>
  The constructor, lines 111-119: it throws when \<^verbatim>\<open>configure_.Build()\<close> gives no
  parser (\<open>Inl\<close> carries the exception's message). The containers start empty; the
  repository starts with an empty package name and path.
\<close>

definition newExec :: "Language \<Rightarrow> exec" where
  "newExec lang =
     \<lparr>path = [], patterns = [], options = [], fileMap = [], slocMap = Map.empty,
      numFiles = 0, numDirs = 0, package = [], language = lang, currentPath = [],
      trace = []\<rparr>"

definition CodeAnalysisExecutive :: "env \<Rightarrow> string + exec" where
  "CodeAnalysisExecutive en =
     (if \<not> parserBuilt en then Inl (''couldn'' @ [CHR 0x27] @ ''t create parser'')
      else Inr (newExec (initialLanguage en)))"

text \<open>
  How a run ends: \<^verbatim>\<open>main\<close> returns a status, or an exception leaves \<^verbatim>\<open>main\<close>
  and the C++ runtime calls \<^verbatim>\<open>std::terminate\<close>.
\<close>

datatype outcome = Returned int | Terminated string

text \<open>
  The statements of the \<^verbatim>\<open>try\<close> block of \<^verbatim>\<open>main\<close> that follow a successful
  \<^verbatim>\<open>ProcessCommandLine\<close>, lines 844-859, when nothing throws.
\<close>

definition tryBlock :: "env \<Rightarrow> string list \<Rightarrow> exec \<Rightarrow> exec" where
  "tryBlock en argv st1 =
     (let st2 = setDisplayModes en st1;
          st3 = startLogger en st2;
          st4 = showCommandLineArguments en argv st3;
          st5 = emit (LogWrite Rslt [nl]) st4;
          st6 = getSourceFiles en st5;
          st7 = processSourceCode en True st6;
          st8 = complexityAnalysis st7;
          st9 = flushLogger st8;
          st10 = emit (LogWrite Rslt [nl]) st9;
          st11 = stopLogger st10;
          st12 = emit (DependencyTable argv) st11;
          st13 = emit CallingPublisher st12;
          st14 = emit DemonstraingRequirements st13
      in emit GetChar st14)"

text \<open>The events of these statements.\<close>

definition blockEvents :: "env \<Rightarrow> string list \<Rightarrow> exec \<Rightarrow> event list" where
  "blockEvents en argv st1 = drop (length (trace st1)) (trace (tryBlock en argv st1))"

text \<open>The handler of lines 861-866, before its \<^verbatim>\<open>return 1\<close>.\<close>

definition caught :: "string \<Rightarrow> exec \<Rightarrow> exec" where
  "caught what st =
     stopLogger
       (emit (Cout ([nl, nl] @ ''  caught exception in Executive::main: '' @ what @ [nl, nl]))
          (flushLogger st))"

text \<open>
  \<^verbatim>\<open>main\<close>, lines 838-868, with the events of the run. The executive is constructed
  before the \<^verbatim>\<open>try\<close> block, so the handler of line 861 does not catch what the
  constructor throws. An exception inside the block ends the block where it is thrown:
  the events before it have happened, then the handler runs and \<^verbatim>\<open>main\<close> returns 1.
\<close>

definition main :: "env \<Rightarrow> string list \<Rightarrow> outcome \<times> event list" where
  "main en argv =
     (case CodeAnalysisExecutive en of
        Inl msg \<Rightarrow> (Terminated msg, [])
      | Inr ex \<Rightarrow>
          (case ProcessCommandLine en argv ex of
             (succeeded, st1) \<Rightarrow>
               if \<not> succeeded then (Returned 1, trace st1)
               else
                 (case mainThrows en argv of
                    None \<Rightarrow> (Returned 0, trace (tryBlock en argv st1))
                  | Some (k, what) \<Rightarrow>
                      if k < length (blockEvents en argv st1)
                      then (Returned 1,
                            trace (caught what
                              (st1\<lparr>trace := trace st1 @ take k (blockEvents en argv st1)\<rparr>)))
                      else (Returned 0, trace (tryBlock en argv st1)))))"

subsection \<open>One line of the metrics table\<close>

text \<open>
  The fields of \<^verbatim>\<open>ASTNode\<close> that \<^verbatim>\<open>displayMetricsLine\<close> reads (\<^verbatim>\<open>type_\<close>,
  \<^verbatim>\<open>name_\<close>, \<^verbatim>\<open>startLineCount_\<close>, \<^verbatim>\<open>endLineCount_\<close>, \<^verbatim>\<open>complexity_\<close>). The three
  numbers have the type \<open>'n\<close>, which the functions below take as \<^verbatim>\<open>size_t\<close>: a word
  of the platform's width \<open>'w\<close>, with the wrap-around arithmetic of unsigned integers.
\<close>

record 'n ASTNode =
  node_type :: string
  node_name :: string
  startLineCount :: 'n
  endLineCount :: 'n
  complexity :: 'n

text \<open>\<^verbatim>\<open>out << n\<close> for an unsigned number: its decimal digits.\<close>

definition digit :: "nat \<Rightarrow> char" where
  "digit d = ''0123456789'' ! d"

fun decimal :: "nat \<Rightarrow> string" where
  "decimal n = (if n < 10 then [digit n] else decimal (n div 10) @ [digit (n mod 10)])"

declare decimal.simps [simp del]

text \<open>
  \<^verbatim>\<open>displayMetricsLine\<close>, lines 478-496: the text handed to \<^verbatim>\<open>Rslt::write\<close>.
\<close>

definition metricsLine :: "File \<Rightarrow> ('w::len) word ASTNode \<Rightarrow> string" where
  "metricsLine f pNode =
     nl # '' '' @
     setwRight 25 (trunc f 23) @
     setwRight 12 (node_type pNode) @
     setwRight 35 (trunc (node_name pNode) 33) @
     setwRight 8 (decimal (unat (startLineCount pNode))) @
     setwRight 8 (decimal (unat (endLineCount pNode - startLineCount pNode + 1))) @
     setwRight 8 (decimal (unat (complexity pNode)))"

definition displayMetricsLine :: "File \<Rightarrow> ('w::len) word ASTNode \<Rightarrow> exec \<Rightarrow> exec" where
  "displayMetricsLine f pNode st = emit (LogWrite Rslt (metricsLine f pNode)) st"

subsection \<open>Notions used to state the properties\<close>

text \<open>
  The events of a run that touch the parser, the repository or the line-count table, and
  the writes to the results logger. Output on \<open>std::cout\<close>, flushes and the writes to the
  demo and debug loggers are left out.
\<close>

fun isCore :: "event \<Rightarrow> bool" where
  "isCore (Cout s) = False"
| "isCore (LogFlush lg) = False"
| "isCore (LogWrite lg s) = (lg = Rslt)"
| "isCore e = True"

definition core :: "event list \<Rightarrow> event list" where
  "core tr = filter isCore tr"

text \<open>The events of the parser and of the two passes that follow the parse.\<close>

fun isPhase :: "event \<Rightarrow> bool" where
  "isPhase (Attach f b) = True"
| "isPhase (Parse f) = True"
| "isPhase ComplexityEval = True"
| "isPhase (DependencyTable av) = True"
| "isPhase e = False"

text \<open>The file that a parser event is about.\<close>

fun fileOf :: "event \<Rightarrow> File option" where
  "fileOf (Attach f b) = Some f"
| "fileOf (Parse f) = Some f"
| "fileOf e = None"

text \<open>The events that a state has got since an earlier state.\<close>

definition since :: "exec \<Rightarrow> exec \<Rightarrow> event list" where
  "since st st' = drop (length (trace st)) (trace st')"

text \<open>
  What one turn of a loop of \<open>processSourceCode\<close> does for the file \<open>f\<close>, as core events:
  with a successful attach, one assignment to each per-file field, the parse and one
  line-count entry; with a failed attach, the package name and the warning.
\<close>

definition fileEvents :: "env \<Rightarrow> Language \<Rightarrow> File \<Rightarrow> event list" where
  "fileEvents en lang f =
     (if attach en f
      then [SetPackage (getName en f), Attach f True, SetLanguage lang, SetCurrentPath f,
            Parse f, SetSloc (getName en f) (currentLineCount en f)]
      else [SetPackage (getName en f), Attach f False, LogWrite Rslt (couldNotOpen f)])"

text \<open>The parser events of one turn: the attach, and the parse when the attach succeeded.\<close>

definition parserEvents :: "env \<Rightarrow> File \<Rightarrow> event list" where
  "parserEvents en f = Attach f (attach en f) # (if attach en f then [Parse f] else [])"

text \<open>The files of a run in the order of the three loops, each with the loop's language.\<close>

definition schedule :: "FileMap \<Rightarrow> (File \<times> Language) list" where
  "schedule fm =
     map (\<lambda>f. (f, Cpp)) (cppHeaderFiles fm) @
     map (\<lambda>f. (f, Cpp)) (cppImplemFiles fm) @
     map (\<lambda>f. (f, CSharp)) (csharpFiles fm)"

text \<open>
  The file table as \<open>AnalFileMgr\<close> fills it: every file is stored under the key made of
  its own extension.
\<close>

definition fileMap_inv :: "env \<Rightarrow> FileMap \<Rightarrow> bool" where
  "fileMap_inv en fm =
     list_all (\<lambda>item. list_all (\<lambda>f. fst item = ''*.'' @ getExt en f) (snd item)) fm"

text \<open>The files stored under a key; a key without an entry has none.\<close>

definition filesUnder :: "FileMap \<Rightarrow> Pattern \<Rightarrow> Files" where
  "filesUnder fm k = (case map_of fm k of None \<Rightarrow> [] | Some fs \<Rightarrow> fs)"

text \<open>
  The claim's account of what a sequence of callbacks stores, given the directory of the
  last \<open>dir\<close> callback: for each \<open>file\<close> callback the key \<^verbatim>\<open>*.\<close> followed by the
  extension, and the directory joined with the file name by a backslash.
\<close>

fun notified :: "env \<Rightarrow> Path \<Rightarrow> notification list \<Rightarrow> (Pattern \<times> File) list" where
  "notified en d [] = []"
| "notified en d (DirNote d' # ns) = notified en d' ns"
| "notified en d (FileNote f # ns) =
     (''*.'' @ getExt en (d @ [bslash] @ f), d @ [bslash] @ f) # notified en d ns"

fun isDirNote :: "notification \<Rightarrow> bool" where
  "isDirNote (DirNote d) = True"
| "isDirNote (FileNote f) = False"

text \<open>
  The file table that a run parses: what \<open>getSourceFiles\<close> makes of the command line
  on a new executive.
\<close>

definition discovered :: "env \<Rightarrow> string list \<Rightarrow> FileMap" where
  "discovered en argv =
     fileMap (getSourceFiles en (snd (ProcessCommandLine en argv (newExec (initialLanguage en)))))"

text \<open>A call inside the \<^verbatim>\<open>try\<close> block of \<open>ProcessCommandLine\<close> on \<open>argv\<close> throws.\<close>

definition cmdLineRaises :: "env \<Rightarrow> string list \<Rightarrow> bool" where
  "cmdLineRaises en argv =
     (cmdLineThrows en (FullFileSpec (argv ! 1)) \<noteq> None \<or>
      cmdLineThrows en (DirExists (getFullFileSpec en (argv ! 1))) \<noteq> None \<or>
      list_ex (\<lambda>i. cmdLineThrows en (PushBack i) \<noteq> None) [2..<length argv])"

text \<open>A call inside the \<^verbatim>\<open>try\<close> block of \<open>main\<close> throws in the run on \<open>argv\<close>.\<close>

definition mainRaises :: "env \<Rightarrow> string list \<Rightarrow> bool" where
  "mainRaises en argv =
     (case mainThrows en argv of
        None \<Rightarrow> False
      | Some (k, what) \<Rightarrow>
          k < length (blockEvents en argv
                (snd (ProcessCommandLine en argv (newExec (initialLanguage en))))))"

text \<open>A line of the table cut into cells of the given widths, from the left.\<close>

fun cells :: "nat list \<Rightarrow> string \<Rightarrow> string list" where
  "cells [] s = []"
| "cells (w # ws) s = take w s # cells ws (drop w s)"

text \<open>The number that a string of decimal digits denotes.\<close>

definition digitValue :: "char \<Rightarrow> nat" where
  "digitValue c = of_char c - of_char (CHR ''0'')"

definition readDecimal :: "string \<Rightarrow> nat" where
  "readDecimal s = foldl (\<lambda>a c. 10 * a + digitValue c) 0 s"

text \<open>The count that a query reports: the recorded one, or 0 without an entry.\<close>

definition reported :: "(File \<rightharpoonup> Slocs) \<Rightarrow> File \<Rightarrow> Slocs" where
  "reported m f = (case m f of None \<Rightarrow> 0 | Some n \<Rightarrow> n)"

text \<open>An argument that begins with \<^verbatim>\<open>/\<close>.\<close>

definition isOption :: "string \<Rightarrow> bool" where
  "isOption a = (case a of [] \<Rightarrow> False | c # cs \<Rightarrow> c = CHR ''/'')"

subsection \<open>A sample environment\<close>

text \<open>
  A small file system for the concrete instances below: the extension is what follows
  the last dot, the name what follows the last backslash; the directory \<^verbatim>\<open>src\<close> holds
  four files, of which \<^verbatim>\<open>src\b.cpp\<close> cannot be opened, and nothing throws.
\<close>

definition afterLast :: "char \<Rightarrow> string \<Rightarrow> string" where
  "afterLast c s = rev (takeWhile (\<lambda>x. x \<noteq> c) (rev s))"

definition sampleEnv :: env where
  "sampleEnv =
     \<lparr>getExt = afterLast (CHR ''.''),
      getName = afterLast bslash,
      getFullFileSpec = (\<lambda>p. p),
      dirExists = (\<lambda>p. p = ''src''),
      searchCalls = (\<lambda>p pats. [DirNote ''src'', FileNote ''a.h'', FileNote ''b.cpp'',
                                 FileNote ''c.cs'', FileNote ''d.hpp'']),
      parserBuilt = True,
      attach = (\<lambda>f. f \<noteq> ''src'' @ [bslash] @ ''b.cpp''),
      currentLineCount = (\<lambda>f. 10 + length f),
      running = (\<lambda>lg tr. lg = Rslt),
      streamGood = (\<lambda>p. True),
      initialLanguage = Cpp,
      cmdLineThrows = (\<lambda>c. None),
      mainThrows = (\<lambda>argv. None)\<rparr>"

text \<open>The same file system when the search reports one file of each kind.\<close>

definition runEnv :: env where
  "runEnv =
     sampleEnv\<lparr>searchCalls := (\<lambda>p pats. [DirNote ''src'', FileNote ''a.h'', FileNote ''b.cpp'',
                                          FileNote ''c.cs''])\<rparr>"

text \<open>
  The file system of \<open>runEnv\<close> when a call inside the \<^verbatim>\<open>try\<close> block of \<open>main\<close> throws
  after 16 events of the block; on the command line \<^verbatim>\<open>src *.h *.cpp *.cs /m\<close> that is
  when the first file has been parsed.
\<close>

definition thrEnv :: env where
  "thrEnv = runEnv\<lparr>mainThrows := (\<lambda>argv. Some (16, ''bad allocation''))\<rparr>"

text \<open>
  The file system of \<open>sampleEnv\<close> when the search reports the file \<^verbatim>\<open>a.h\<close> once for
  every pattern of the command line.
\<close>

definition dupEnv :: env where
  "dupEnv = sampleEnv\<lparr>searchCalls := (\<lambda>p pats. DirNote ''src'' # map (\<lambda>pat. FileNote ''a.h'') pats)\<rparr>"

text \<open>
  The file system of \<open>sampleEnv\<close> when \<^verbatim>\<open>Directory::exists\<close> throws on \<^verbatim>\<open>src\<close>,
  and when the \<^verbatim>\<open>push_back\<close> for \<^verbatim>\<open>argv[2]\<close> throws.
\<close>

definition deniedEnv :: env where
  "deniedEnv =
     sampleEnv\<lparr>cmdLineThrows := (\<lambda>c. if c = DirExists ''src'' then Some ''access denied'' else None)\<rparr>"

definition badAllocEnv :: env where
  "badAllocEnv =
     sampleEnv\<lparr>cmdLineThrows := (\<lambda>c. if c = PushBack 2 then Some ''bad allocation'' else None)\<rparr>"

definition sampleMap :: FileMap where
  "sampleMap =
     [(''*.cs'', [''src'' @ [bslash] @ ''c.cs'']),
      (''*.cpp'', [''src'' @ [bslash] @ ''b.cpp'']),
      (''*.hpp'', [''src'' @ [bslash] @ ''d.hpp'']),
      (''*.h'', [''src'' @ [bslash] @ ''a.h''])]"

subsection \<open>Facts about the substring test\<close>

lemma str_find_Some_sublist:
  "str_find str text = Some pos \<Longrightarrow> pos + length text \<le> length str \<and> take (length text) (drop pos str) = text"
proof (induction str arbitrary: pos)
  case Nil
  then show ?case by (auto split: if_splits)
next
  case (Cons c cs)
  show ?case
  proof (cases "take (length text) (c # cs) = text")
    case True
    with Cons.prems have "pos = 0" by simp
    moreover have "length text \<le> length (c # cs)"
      using arg_cong [OF True, of length] by simp
    ultimately show ?thesis using True by simp
  next
    case False
    with Cons.prems obtain p where p: "str_find cs text = Some p" "pos = Suc p"
      by auto
    from Cons.IH [OF p(1)] p(2) show ?thesis by simp
  qed
qed

lemma str_find_None_no_sublist:
  "str_find str text = None \<Longrightarrow> \<not> sublist text str"
proof (induction str)
  case Nil
  then show ?case by (auto split: if_splits)
next
  case (Cons c cs)
  from Cons.prems have np: "take (length text) (c # cs) \<noteq> text" and r: "str_find cs text = None"
    by (auto split: if_splits)
  from np have "\<not> prefix text (c # cs)"
    by (metis append_eq_conv_conj prefix_def)
  with Cons.IH [OF r] show ?case
    by (simp add: sublist_Cons_right)
qed

lemma contains_iff_sublist:
  "contains str text \<longleftrightarrow> sublist text str \<and> str \<noteq> []"
proof (cases "str_find str text")
  case None
  then show ?thesis
    by (simp add: contains_def str_find_None_no_sublist)
next
  case (Some pos)
  from str_find_Some_sublist [OF Some]
  have le: "pos + length text \<le> length str" and tk: "take (length text) (drop pos str) = text"
    by simp_all
  have "str = take pos str @ text @ drop (length text) (drop pos str)"
    by (metis append_take_drop_id tk)
  then have sub: "sublist text str"
    unfolding sublist_def by blast
  show ?thesis
  proof (cases "str = []")
    case True
    with Some show ?thesis by (simp add: contains_def)
  next
    case False
    show ?thesis
    proof (cases "text = []")
      case True
      with False Some have "pos = 0" by (cases str) auto
      with False Some sub show ?thesis by (simp add: contains_def)
    next
      case ne: False
      with le have "pos < length str" by (cases "text") auto
      with False Some sub show ?thesis by (simp add: contains_def)
    qed
  qed
qed

lemma collectFiles_filter:
  "collectFiles text fm acc = acc @ concat (map snd (filter (\<lambda>item. contains (fst item) text) fm))"
  by (induction fm arbitrary: acc) auto

subsection \<open>Facts about the trace and the state\<close>

lemma trace_emit [simp]: "trace (emit e st) = trace st @ [e]"
  by (simp add: emit_def)

lemma emit_data [simp]:
  "fileMap (emit e st) = fileMap st" "slocMap (emit e st) = slocMap st"
  "package (emit e st) = package st" "language (emit e st) = language st"
  "currentPath (emit e st) = currentPath st" "path (emit e st) = path st"
  "patterns (emit e st) = patterns st" "options (emit e st) = options st"
  by (simp_all add: emit_def)

lemma core_append [simp]: "core (xs @ ys) = core xs @ core ys"
  by (simp add: core_def)

lemma core_Cons: "core (e # es) = (if isCore e then e # core es else core es)"
  by (simp add: core_def)

lemma core_Nil [simp]: "core [] = []"
  by (simp add: core_def)

lemma showActivity_core [simp]: "core (trace (showActivity en f st)) = core (trace st)"
  by (simp add: showActivity_def core_Cons)

lemma showActivity_data [simp]:
  "fileMap (showActivity en f st) = fileMap st" "slocMap (showActivity en f st) = slocMap st"
  "package (showActivity en f st) = package st" "language (showActivity en f st) = language st"
  "currentPath (showActivity en f st) = currentPath st"
  by (simp_all add: showActivity_def)

lemma clearActivity_core [simp]: "core (trace (clearActivity en st)) = core (trace st)"
  by (simp add: clearActivity_def core_Cons)

lemma clearActivity_data [simp]:
  "fileMap (clearActivity en st) = fileMap st" "slocMap (clearActivity en st) = slocMap st"
  "package (clearActivity en st) = package st" "language (clearActivity en st) = language st"
  "currentPath (clearActivity en st) = currentPath st"
  by (simp_all add: clearActivity_def)

lemma announce_core [simp]: "core (trace (announce en st)) = core (trace st)"
  by (simp add: announce_def Let_def core_Cons)

lemma announce_data [simp]:
  "fileMap (announce en st) = fileMap st" "slocMap (announce en st) = slocMap st"
  "package (announce en st) = package st" "language (announce en st) = language st"
  "currentPath (announce en st) = currentPath st"
  by (simp_all add: announce_def Let_def)

lemma assignPackage_simps [simp]:
  "trace (assignPackage p st) = trace st @ [SetPackage p]"
  "fileMap (assignPackage p st) = fileMap st" "slocMap (assignPackage p st) = slocMap st"
  "package (assignPackage p st) = p" "language (assignPackage p st) = language st"
  "currentPath (assignPackage p st) = currentPath st"
  by (simp_all add: assignPackage_def)

lemma assignLanguage_simps [simp]:
  "trace (assignLanguage l st) = trace st @ [SetLanguage l]"
  "fileMap (assignLanguage l st) = fileMap st" "slocMap (assignLanguage l st) = slocMap st"
  "package (assignLanguage l st) = package st" "language (assignLanguage l st) = l"
  "currentPath (assignLanguage l st) = currentPath st"
  by (simp_all add: assignLanguage_def)

lemma assignCurrentPath_simps [simp]:
  "trace (assignCurrentPath f st) = trace st @ [SetCurrentPath f]"
  "fileMap (assignCurrentPath f st) = fileMap st" "slocMap (assignCurrentPath f st) = slocMap st"
  "package (assignCurrentPath f st) = package st" "language (assignCurrentPath f st) = language st"
  "currentPath (assignCurrentPath f st) = f"
  by (simp_all add: assignCurrentPath_def)

lemma recordSloc_simps [simp]:
  "trace (recordSloc n st) = trace st @ [SetSloc (package st) n]"
  "fileMap (recordSloc n st) = fileMap st"
  "slocMap (recordSloc n st) = (slocMap st)(package st \<mapsto> n)"
  "package (recordSloc n st) = package st" "language (recordSloc n st) = language st"
  "currentPath (recordSloc n st) = currentPath st"
  by (simp_all add: recordSloc_def)

lemma parseAndCount_simps [simp]:
  "trace (parseAndCount en f st) = trace st @ [Parse f, SetSloc (package st) (currentLineCount en f)]"
  "fileMap (parseAndCount en f st) = fileMap st"
  "slocMap (parseAndCount en f st) = (slocMap st)(package st \<mapsto> currentLineCount en f)"
  "package (parseAndCount en f st) = package st" "language (parseAndCount en f st) = language st"
  "currentPath (parseAndCount en f st) = currentPath st"
  by (simp_all add: parseAndCount_def)

lemma headerBody_core: "core (trace (headerBody en sp f st)) = core (trace st) @ fileEvents en Cpp f"
  by (simp add: headerBody_def Let_def fileEvents_def core_Cons)

lemma implemBody_core: "core (trace (implemBody en sp f st)) = core (trace st) @ fileEvents en Cpp f"
  by (simp add: implemBody_def Let_def fileEvents_def core_Cons)

lemma csharpBody_core: "core (trace (csharpBody en sp f st)) = core (trace st) @ fileEvents en CSharp f"
  by (simp add: csharpBody_def Let_def fileEvents_def core_Cons)

lemma headerBody_data:
  "fileMap (headerBody en sp f st) = fileMap st"
  "slocMap (headerBody en sp f st) =
     (if attach en f then (slocMap st)(getName en f \<mapsto> currentLineCount en f) else slocMap st)"
  "package (headerBody en sp f st) = getName en f"
  "language (headerBody en sp f st) = (if attach en f then Cpp else language st)"
  "currentPath (headerBody en sp f st) = (if attach en f then f else currentPath st)"
  by (simp_all add: headerBody_def Let_def)

lemma implemBody_data:
  "fileMap (implemBody en sp f st) = fileMap st"
  "slocMap (implemBody en sp f st) =
     (if attach en f then (slocMap st)(getName en f \<mapsto> currentLineCount en f) else slocMap st)"
  "package (implemBody en sp f st) = getName en f"
  "language (implemBody en sp f st) = (if attach en f then Cpp else language st)"
  "currentPath (implemBody en sp f st) = (if attach en f then f else currentPath st)"
  by (simp_all add: implemBody_def Let_def)

lemma csharpBody_data:
  "fileMap (csharpBody en sp f st) = fileMap st"
  "slocMap (csharpBody en sp f st) =
     (if attach en f then (slocMap st)(getName en f \<mapsto> currentLineCount en f) else slocMap st)"
  "package (csharpBody en sp f st) = getName en f"
  "language (csharpBody en sp f st) = (if attach en f then CSharp else language st)"
  "currentPath (csharpBody en sp f st) = (if attach en f then f else currentPath st)"
  by (simp_all add: csharpBody_def Let_def)

lemma fold_core:
  assumes "\<And>f st. core (trace (body f st)) = core (trace st) @ ev f"
  shows "core (trace (fold body fs st)) = core (trace st) @ concat (map ev fs)"
  by (induction fs arbitrary: st) (simp_all add: assms)

lemma fold_fileMap:
  assumes "\<And>f st. fileMap (body f st) = fileMap st"
  shows "fileMap (fold body fs st) = fileMap st"
  by (induction fs arbitrary: st) (simp_all add: assms)

lemma fold_grows:
  assumes "\<And>f st. prefix (trace st) (trace (body f st))"
  shows "prefix (trace st) (trace (fold body fs st))"
proof (induction fs arbitrary: st)
  case Nil
  show ?case by simp
next
  case (Cons f fs)
  have "prefix (trace st) (trace (body f st))" by (rule assms)
  also have "prefix (trace (body f st)) (trace (fold body fs (body f st)))" by (rule Cons.IH)
  finally show ?case by simp
qed

lemma showActivity_grows [simp]: "prefix xs (trace st) \<Longrightarrow> prefix xs (trace (showActivity en f st))"
  by (simp add: showActivity_def)

lemma clearActivity_grows [simp]: "prefix xs (trace st) \<Longrightarrow> prefix xs (trace (clearActivity en st))"
  by (simp add: clearActivity_def)

lemma announce_grows [simp]: "prefix xs (trace st) \<Longrightarrow> prefix xs (trace (announce en st))"
  by (simp add: announce_def Let_def)

lemma headerBody_grows: "prefix (trace st) (trace (headerBody en sp f st))"
  by (simp add: headerBody_def Let_def)

lemma implemBody_grows: "prefix (trace st) (trace (implemBody en sp f st))"
  by (simp add: implemBody_def Let_def)

lemma csharpBody_grows: "prefix (trace st) (trace (csharpBody en sp f st))"
  by (simp add: csharpBody_def Let_def)

lemma core_since:
  assumes "prefix (trace st) (trace st')" and "core (trace st') = core (trace st) @ evs"
  shows "core (since st st') = evs"
proof -
  from assms(1) obtain new where new: "trace st' = trace st @ new"
    by (auto simp: prefix_def)
  then have "since st st' = new" by (simp add: since_def)
  with assms(2) new show ?thesis by simp
qed

lemma processSourceCode_loops:
  "processSourceCode en sp st =
     emit (LogWrite Rslt (cr # ''  '' @ setwLeft 77 '' ''))
       ((if sp then clearActivity en else (\<lambda>s. s))
          (fold (csharpBody en sp) (csharpFiles (fileMap st))
             (fold (implemBody en sp) (cppImplemFiles (fileMap st))
                (fold (headerBody en sp) (cppHeaderFiles (fileMap st)) st))))"
  by (simp add: processSourceCode_def Let_def fold_fileMap headerBody_data implemBody_data)

lemma processSourceCode_grows: "prefix (trace st) (trace (processSourceCode en sp st))"
proof -
  define st1 where "st1 = fold (headerBody en sp) (cppHeaderFiles (fileMap st)) st"
  define st2 where "st2 = fold (implemBody en sp) (cppImplemFiles (fileMap st)) st1"
  define st3 where "st3 = fold (csharpBody en sp) (csharpFiles (fileMap st)) st2"
  have "prefix (trace st) (trace st1)"
    unfolding st1_def by (rule fold_grows) (rule headerBody_grows)
  also have "prefix (trace st1) (trace st2)"
    unfolding st2_def by (rule fold_grows) (rule implemBody_grows)
  also have "prefix (trace st2) (trace st3)"
    unfolding st3_def by (rule fold_grows) (rule csharpBody_grows)
  finally have "prefix (trace st) (trace st3)" .
  then show ?thesis
    unfolding processSourceCode_loops st1_def st2_def st3_def by (cases sp) simp_all
qed

lemma processSourceCode_fileMap: "fileMap (processSourceCode en sp st) = fileMap st"
  by (simp add: processSourceCode_loops fold_fileMap headerBody_data implemBody_data csharpBody_data)

lemma schedule_events:
  "concat (map (\<lambda>(f, l). fileEvents en l f) (schedule fm)) =
     concat (map (fileEvents en Cpp) (cppHeaderFiles fm)) @
     concat (map (fileEvents en Cpp) (cppImplemFiles fm)) @
     concat (map (fileEvents en CSharp) (csharpFiles fm))"
  by (simp add: schedule_def comp_def)

lemma processSourceCode_core:
  "core (since st (processSourceCode en sp st)) =
     concat (map (\<lambda>(f, l). fileEvents en l f) (schedule (fileMap st))) @
     [LogWrite Rslt (cr # ''  '' @ setwLeft 77 '' '')]"
proof (rule core_since [OF processSourceCode_grows])
  define st1 where "st1 = fold (headerBody en sp) (cppHeaderFiles (fileMap st)) st"
  define st2 where "st2 = fold (implemBody en sp) (cppImplemFiles (fileMap st)) st1"
  define st3 where "st3 = fold (csharpBody en sp) (csharpFiles (fileMap st)) st2"
  have c1: "core (trace st1) = core (trace st) @ concat (map (fileEvents en Cpp) (cppHeaderFiles (fileMap st)))"
    unfolding st1_def by (rule fold_core) (rule headerBody_core)
  have c2: "core (trace st2) = core (trace st1) @ concat (map (fileEvents en Cpp) (cppImplemFiles (fileMap st)))"
    unfolding st2_def by (rule fold_core) (rule implemBody_core)
  have c3: "core (trace st3) = core (trace st2) @ concat (map (fileEvents en CSharp) (csharpFiles (fileMap st)))"
    unfolding st3_def by (rule fold_core) (rule csharpBody_core)
  have "core (trace (processSourceCode en sp st)) = core (trace st3) @ [LogWrite Rslt (cr # ''  '' @ setwLeft 77 '' '')]"
    unfolding processSourceCode_loops st1_def st2_def st3_def by (cases sp) (simp_all add: core_Cons)
  then show "core (trace (processSourceCode en sp st)) =
      core (trace st) @ concat (map (\<lambda>(f, l). fileEvents en l f) (schedule (fileMap st))) @
      [LogWrite Rslt (cr # ''  '' @ setwLeft 77 '' '')]"
    by (simp add: c1 c2 c3 schedule_events)
qed

lemma contains_nonempty_text:
"contains k (c # cs) \<longleftrightarrow> sublist (c # cs) k"
  by (cases k) (auto simp: contains_iff_sublist)

lemma collectFiles_sublist:
  "collectFiles (c # cs) fm [] = concat (map snd (filter (\<lambda>item. sublist (c # cs) (fst item)) fm))"
  by (simp add: collectFiles_filter contains_nonempty_text)

subsection \<open>Facts about the file manager and the command line\<close>

lemma filesUnder_pushFile:
  "filesUnder (pushFile p fqf fm) k = (if k = p then filesUnder fm p @ [fqf] else filesUnder fm k)"
  by (induction p fqf fm rule: pushFile.induct) (auto simp: filesUnder_def)

lemma length_concat_pushFile:
  "length (concat (map snd (pushFile p fqf fm))) = Suc (length (concat (map snd fm)))"
  by (induction p fqf fm rule: pushFile.induct) auto

lemma mgr_search_Nil [simp]: "mgr_search en [] m = m"
  by (simp add: mgr_search_def)

lemma mgr_search_Cons [simp]: "mgr_search en (n # ns) m = mgr_search en ns (notify en n m)"
  by (simp add: mgr_search_def)

lemma mgr_search_files:
  "filesUnder (mgr_fileMap (mgr_search en ns m)) k =
     filesUnder (mgr_fileMap m) k @ map snd (filter (\<lambda>kf. fst kf = k) (notified en (mgr_d m) ns))"
proof (induction ns arbitrary: m)
  case Nil
  show ?case by simp
next
  case (Cons n ns)
  show ?case
  proof (cases n)
    case (DirNote d)
    then show ?thesis by (simp add: Cons.IH mgr_dir_def)
  next
    case (FileNote f)
    then show ?thesis by (simp add: Cons.IH mgr_file_def Let_def filesUnder_pushFile)
  qed
qed

lemma mgr_search_numFiles:
  "mgr_numFiles (mgr_search en ns m) = mgr_numFiles m + length (filter (\<lambda>n. \<not> isDirNote n) ns)"
proof (induction ns arbitrary: m)
  case Nil
  show ?case by simp
next
  case (Cons n ns)
  then show ?case by (cases n) (simp_all add: mgr_dir_def mgr_file_def Let_def)
qed

lemma mgr_search_numDirs:
  "mgr_numDirs (mgr_search en ns m) = mgr_numDirs m + length (filter isDirNote ns)"
proof (induction ns arbitrary: m)
  case Nil
  show ?case by simp
next
  case (Cons n ns)
  then show ?case by (cases n) (simp_all add: mgr_dir_def mgr_file_def Let_def)
qed

lemma mgr_search_stored:
  "length (concat (map snd (mgr_fileMap (mgr_search en ns m)))) =
     length (concat (map snd (mgr_fileMap m))) + length (filter (\<lambda>n. \<not> isDirNote n) ns)"
proof (induction ns arbitrary: m)
  case Nil
  show ?case by simp
next
  case (Cons n ns)
  then show ?case
    by (cases n) (simp_all add: mgr_dir_def mgr_file_def Let_def length_concat_pushFile del: length_concat)
qed

lemma length_notified:
  "length (notified en d ns) = length (filter (\<lambda>n. \<not> isDirNote n) ns)"
  by (induction en d ns rule: notified.induct) simp_all

lemma mgr_search_inv:
  "fileMap_inv en (mgr_fileMap m) \<Longrightarrow> fileMap_inv en (mgr_fileMap (mgr_search en ns m))"
proof (induction ns arbitrary: m)
  case Nil
  then show ?case by simp
next
  case (Cons n ns)
  have push: "fileMap_inv en (pushFile (CHR ''*'' # CHR ''.'' # getExt en fqf) fqf fm)"
    if "fileMap_inv en fm" for fqf fm
    using that by (induction fm) (auto simp: fileMap_inv_def)
  from Cons.prems have "fileMap_inv en (mgr_fileMap (notify en n m))"
    by (cases n) (simp_all add: mgr_dir_def mgr_file_def Let_def push)
  then show ?case by (simp add: Cons.IH)
qed

lemma isOption_cstrAt: "isOption a \<longleftrightarrow> cstrAt a 0 = CHR ''/''"
  by (cases a) (simp_all add: isOption_def cstrAt_def)

lemma recordArg_fold:
  "options (fold recordArg as st) =
     options st @ map (\<lambda>a. if 1 < length a then a ! 1 else CHR 0x00) (filter isOption as) \<and>
   patterns (fold recordArg as st) = patterns st @ filter (\<lambda>a. \<not> isOption a) as \<and>
   path (fold recordArg as st) = path st \<and> trace (fold recordArg as st) = trace st \<and>
   fileMap (fold recordArg as st) = fileMap st"
  by (induction as arbitrary: st) (simp_all add: recordArg_def isOption_cstrAt cstrAt_def)

lemma recordArgs_Inr:
  "(\<forall>j. i \<le> j \<and> j < i + length as \<longrightarrow> cmdLineThrows en (PushBack j) = None) \<Longrightarrow>
   recordArgs en i as st = Inr (fold recordArg as st)"
proof (induction as arbitrary: i st)
  case Nil
  show ?case by simp
next
  case (Cons a as)
  from Cons.prems have here: "cmdLineThrows en (PushBack i) = None"
    by simp
  from Cons.prems have rest:
    "\<forall>j. Suc i \<le> j \<and> j < Suc i + length as \<longrightarrow> cmdLineThrows en (PushBack j) = None"
    by simp
  from Cons.IH [OF rest] here show ?case by simp
qed

lemma recordArgs_Inl:
  "\<exists>j. i \<le> j \<and> j < i + length as \<and> cmdLineThrows en (PushBack j) \<noteq> None \<Longrightarrow>
   \<exists>what st'. recordArgs en i as st = Inl (what, st')"
proof (induction as arbitrary: i st)
  case Nil
  then show ?case by auto
next
  case (Cons a as)
  show ?case
  proof (cases "cmdLineThrows en (PushBack i)")
    case (Some what)
    then show ?thesis by simp
  next
    case None
    from Cons.prems obtain j where j: "i \<le> j" "j < i + length (a # as)"
      "cmdLineThrows en (PushBack j) \<noteq> None" by blast
    with None have "j \<noteq> i" by auto
    with j have "\<exists>j. Suc i \<le> j \<and> j < Suc i + length as \<and> cmdLineThrows en (PushBack j) \<noteq> None"
      by (intro exI [of _ j]) simp
    from Cons.IH [OF this] None show ?thesis by simp
  qed
qed

lemma push_raises:
  assumes "2 \<le> length argv"
  shows "list_ex (\<lambda>i. cmdLineThrows en (PushBack i) \<noteq> None) [2..<length argv] \<longleftrightarrow>
   (\<exists>j. 2 \<le> j \<and> j < 2 + length (drop 2 argv) \<and> cmdLineThrows en (PushBack j) \<noteq> None)"
proof -
  from assms have len: "2 + (length argv - 2) = length argv" by arith
  have "list_ex (\<lambda>i. cmdLineThrows en (PushBack i) \<noteq> None) [2..<length argv] \<longleftrightarrow>
        (\<exists>j. 2 \<le> j \<and> j < length argv \<and> cmdLineThrows en (PushBack j) \<noteq> None)"
    by (auto simp add: list_ex_iff)
  then show ?thesis unfolding length_drop len .
qed

subsection \<open>Facts about the order of the parser events\<close>

lemma isPhase_isCore: "isPhase e \<Longrightarrow> isCore e"
  by (cases e) simp_all

lemma filter_isPhase_core: "filter isPhase (core tr) = filter isPhase tr"
  by (induction tr) (auto simp: core_Cons isPhase_isCore)

lemma filter_isPhase_fileEvents: "filter isPhase (fileEvents en l f) = parserEvents en f"
  by (simp add: fileEvents_def parserEvents_def)

lemma filter_concat_map:
  "filter P (concat (map g xs)) = concat (map (\<lambda>x. filter P (g x)) xs)"
  by (induction xs) simp_all

lemma processSourceCode_phases:
  "filter isPhase (since st (processSourceCode en sp st)) =
     concat (map (parserEvents en)
       (cppHeaderFiles (fileMap st) @ cppImplemFiles (fileMap st) @ csharpFiles (fileMap st)))"
proof -
  have "filter isPhase (since st (processSourceCode en sp st)) =
        filter isPhase (core (since st (processSourceCode en sp st)))"
    by (simp add: filter_isPhase_core)
  also have "\<dots> = concat (map (parserEvents en)
       (cppHeaderFiles (fileMap st) @ cppImplemFiles (fileMap st) @ csharpFiles (fileMap st)))"
    by (simp add: processSourceCode_core schedule_events filter_concat_map filter_isPhase_fileEvents)
  finally show ?thesis .
qed

lemma parserEvents_file:
  "e \<in> set (concat (map (parserEvents en) fs)) \<Longrightarrow> \<exists>f \<in> set fs. fileOf e = Some f"
  by (auto simp: parserEvents_def split: if_splits)

lemma fileOf_isPhase: "fileOf e = Some f \<Longrightarrow> isPhase e"
  by (cases e) simp_all

lemma split_right:
  assumes "xs @ e # ys = A @ B" and "e \<notin> set A"
  shows "set ys \<subseteq> set B"
proof -
  from assms(1) obtain us where
    "(xs = A @ us \<and> us @ e # ys = B) \<or> (xs @ us = A \<and> e # ys = us @ B)"
    by (auto simp: append_eq_append_conv2)
  then show ?thesis
  proof
    assume "xs = A @ us \<and> us @ e # ys = B"
    then show ?thesis by auto
  next
    assume a: "xs @ us = A \<and> e # ys = us @ B"
    show ?thesis
    proof (cases us)
      case Nil
      with a show ?thesis by auto
    next
      case (Cons u us')
      with a have "e \<in> set A" by auto
      with assms(2) show ?thesis by simp
    qed
  qed
qed

lemma selected_key:
  assumes "fileMap_inv en fm" and "f \<in> set (collectFiles (c # cs) fm [])"
  shows "sublist (c # cs) (''*.'' @ getExt en f)"
proof -
  from assms(2) obtain item where "item \<in> set fm" "sublist (c # cs) (fst item)" "f \<in> set (snd item)"
    by (auto simp: collectFiles_sublist)
  moreover with assms(1) have "fst item = ''*.'' @ getExt en f"
    by (auto simp: fileMap_inv_def list_all_iff)
  ultimately show ?thesis by simp
qed

lemma not_selected:
  "fileMap_inv en fm \<Longrightarrow> \<not> sublist (c # cs) (''*.'' @ getExt en f) \<Longrightarrow> f \<notin> set (collectFiles (c # cs) fm [])"
  using selected_key by blast

lemma header_ext:
  assumes "fileMap_inv en fm" and "getExt en f = ''h''"
  shows "f \<notin> set (cppImplemFiles fm)" and "f \<notin> set (csharpFiles fm)"
  using assms by (auto simp: cppImplemFiles_def csharpFiles_def sublist_code dest!: selected_key)

lemma implem_ext:
  assumes "fileMap_inv en fm" and "getExt en f = ''cpp''"
  shows "f \<notin> set (cppHeaderFiles fm)" and "f \<notin> set (csharpFiles fm)"
  using assms by (auto simp: cppHeaderFiles_def csharpFiles_def sublist_code dest!: selected_key)

lemma csharp_ext:
  assumes "fileMap_inv en fm" and "getExt en f = ''cs''"
  shows "f \<notin> set (cppHeaderFiles fm)" and "f \<notin> set (cppImplemFiles fm)"
  using assms by (auto simp: cppHeaderFiles_def cppImplemFiles_def sublist_code dest!: selected_key)

lemma sample_inv: "fileMap_inv sampleEnv sampleMap"
  by (simp add: fileMap_inv_def sampleEnv_def sampleMap_def afterLast_def bslash_def)

lemma sample_lists:
  "cppHeaderFiles sampleMap = [''src'' @ [bslash] @ ''d.hpp'', ''src'' @ [bslash] @ ''a.h'']"
  "cppImplemFiles sampleMap = [''src'' @ [bslash] @ ''b.cpp'']"
  "csharpFiles sampleMap = [''src'' @ [bslash] @ ''c.cs'']"
  by (simp_all add: cppHeaderFiles_def cppImplemFiles_def csharpFiles_def sampleMap_def contains_def)

subsection \<open>Facts about the events of the three loops\<close>

lemma core_memD: "e \<in> set (core tr) \<Longrightarrow> e \<in> set tr"
  by (simp add: core_def)

lemma core_memI: "isCore e \<Longrightarrow> e \<in> set tr \<Longrightarrow> e \<in> set (core tr)"
  by (simp add: core_def)

lemma core_events_intro:
  assumes "(f, l) \<in> set (schedule (fileMap st))" and "e \<in> set (fileEvents en l f)"
  shows "e \<in> set (core (since st (processSourceCode en sp st)))"
proof -
  from assms have "e \<in> set (concat (map (\<lambda>(f, l). fileEvents en l f) (schedule (fileMap st))))"
    by (auto intro!: bexI [of _ "(f, l)"])
  then show ?thesis by (simp add: processSourceCode_core)
qed

lemma core_events_cases:
  assumes "e \<in> set (core (since st (processSourceCode en sp st)))"
  shows "e = LogWrite Rslt (cr # ''  '' @ setwLeft 77 '' '') \<or>
         (\<exists>f l. (f, l) \<in> set (schedule (fileMap st)) \<and> e \<in> set (fileEvents en l f))"
proof -
  from assms have "e = LogWrite Rslt (cr # ''  '' @ setwLeft 77 '' '') \<or>
      e \<in> set (concat (map (\<lambda>(f, l). fileEvents en l f) (schedule (fileMap st))))"
    by (simp add: processSourceCode_core)
  then show ?thesis by auto
qed

lemma fileEvents_warning: "\<not> attach en f \<Longrightarrow> LogWrite Rslt (couldNotOpen f) \<in> set (fileEvents en l f)"
  by (simp add: fileEvents_def)

lemma fileEvents_Parse: "Parse f \<in> set (fileEvents en l g) \<longleftrightarrow> g = f \<and> attach en g"
  by (auto simp: fileEvents_def)

lemma fileEvents_SetSloc:
  "SetSloc p n \<in> set (fileEvents en l g) \<longleftrightarrow> attach en g \<and> p = getName en g \<and> n = currentLineCount en g"
  by (simp add: fileEvents_def)

lemma fold_slocMap_other:
  assumes body: "\<And>f st. slocMap (body f st) =
     (if attach en f then (slocMap st)(getName en f \<mapsto> currentLineCount en f) else slocMap st)"
    and other: "\<forall>g \<in> set fs. attach en g \<longrightarrow> getName en g \<noteq> x"
  shows "slocMap (fold body fs st) x = slocMap st x"
  using other by (induction fs arbitrary: st) (auto simp: body)

lemma schedule_files:
  "fst ` set (schedule fm) = set (cppHeaderFiles fm) \<union> set (cppImplemFiles fm) \<union> set (csharpFiles fm)"
  by (auto simp: schedule_def image_Un image_image)

lemma processSourceCode_slocMap_other:
  assumes "\<forall>g \<in> fst ` set (schedule (fileMap st)). attach en g \<longrightarrow> getName en g \<noteq> x"
  shows "slocMap (processSourceCode en sp st) x = slocMap st x"
proof -
  define st1 where "st1 = fold (headerBody en sp) (cppHeaderFiles (fileMap st)) st"
  define st2 where "st2 = fold (implemBody en sp) (cppImplemFiles (fileMap st)) st1"
  define st3 where "st3 = fold (csharpBody en sp) (csharpFiles (fileMap st)) st2"
  from assms have a:
    "\<forall>g \<in> set (cppHeaderFiles (fileMap st)). attach en g \<longrightarrow> getName en g \<noteq> x"
    "\<forall>g \<in> set (cppImplemFiles (fileMap st)). attach en g \<longrightarrow> getName en g \<noteq> x"
    "\<forall>g \<in> set (csharpFiles (fileMap st)). attach en g \<longrightarrow> getName en g \<noteq> x"
    by (simp_all add: schedule_files)
  have "slocMap st1 x = slocMap st x"
    unfolding st1_def by (rule fold_slocMap_other [OF headerBody_data(2) a(1)])
  moreover have "slocMap st2 x = slocMap st1 x"
    unfolding st2_def by (rule fold_slocMap_other [OF implemBody_data(2) a(2)])
  moreover have "slocMap st3 x = slocMap st2 x"
    unfolding st3_def by (rule fold_slocMap_other [OF csharpBody_data(2) a(3)])
  moreover have "slocMap (processSourceCode en sp st) = slocMap st3"
    unfolding processSourceCode_loops st1_def st2_def st3_def by (cases sp) simp_all
  ultimately show ?thesis by simp
qed

lemma sample_schedule:
  "schedule sampleMap =
     [(''src'' @ [bslash] @ ''d.hpp'', Cpp), (''src'' @ [bslash] @ ''a.h'', Cpp),
      (''src'' @ [bslash] @ ''b.cpp'', Cpp), (''src'' @ [bslash] @ ''c.cs'', CSharp)]"
  by (simp add: schedule_def sample_lists)

lemma count_list_0: "x \<notin> set xs \<Longrightarrow> count_list xs x = 0"
  by (induction xs) auto

lemma count_concat_filter_all:
  "(\<forall>item \<in> set fm. f \<in> set (snd item) \<longrightarrow> P item) \<Longrightarrow>
   count_list (concat (map snd (filter P fm))) f = count_list (concat (map snd fm)) f"
  by (induction fm) (auto simp: count_list_0)

lemma inv_key: "fileMap_inv en fm \<Longrightarrow> item \<in> set fm \<Longrightarrow> f \<in> set (snd item) \<Longrightarrow> fst item = ''*.'' @ getExt en f"
  by (auto simp: fileMap_inv_def list_all_iff)

lemma count_selected:
  assumes "fileMap_inv en fm" and "sublist (c # cs) (''*.'' @ getExt en f)"
  shows "count_list (collectFiles (c # cs) fm []) f = count_list (concat (map snd fm)) f"
  unfolding collectFiles_sublist
  by (rule count_concat_filter_all) (use assms inv_key in fastforce)

lemma schedule_count:
  "count_list (map fst (schedule fm)) f =
     count_list (cppHeaderFiles fm) f + count_list (cppImplemFiles fm) f + count_list (csharpFiles fm) f"
  by (simp add: schedule_def comp_def)

lemma schedule_language:
  "(f, l) \<in> set (schedule fm) \<Longrightarrow>
     (l = Cpp \<and> (f \<in> set (cppHeaderFiles fm) \<or> f \<in> set (cppImplemFiles fm))) \<or>
     (l = CSharp \<and> f \<in> set (csharpFiles fm))"
  by (auto simp: schedule_def)

lemma fold_slocMap_written:
  assumes body: "\<And>f st. slocMap (body f st) =
     (if attach en f then (slocMap st)(getName en f \<mapsto> currentLineCount en f) else slocMap st)"
    and same: "\<forall>g \<in> set fs. attach en g \<and> getName en g = x \<longrightarrow> currentLineCount en g = n"
  shows "slocMap (fold body fs st) x =
     (if \<exists>g \<in> set fs. attach en g \<and> getName en g = x then Some n else slocMap st x)"
  using same by (induction fs arbitrary: st) (auto simp: body)

lemma processSourceCode_slocMap_written:
  assumes same: "\<forall>g \<in> fst ` set (schedule (fileMap st)).
      attach en g \<and> getName en g = x \<longrightarrow> currentLineCount en g = n"
    and f: "f \<in> fst ` set (schedule (fileMap st))" "attach en f" "getName en f = x"
  shows "slocMap (processSourceCode en sp st) x = Some n"
proof -
  define st1 where "st1 = fold (headerBody en sp) (cppHeaderFiles (fileMap st)) st"
  define st2 where "st2 = fold (implemBody en sp) (cppImplemFiles (fileMap st)) st1"
  define st3 where "st3 = fold (csharpBody en sp) (csharpFiles (fileMap st)) st2"
  from same have a:
    "\<forall>g \<in> set (cppHeaderFiles (fileMap st)). attach en g \<and> getName en g = x \<longrightarrow> currentLineCount en g = n"
    "\<forall>g \<in> set (cppImplemFiles (fileMap st)). attach en g \<and> getName en g = x \<longrightarrow> currentLineCount en g = n"
    "\<forall>g \<in> set (csharpFiles (fileMap st)). attach en g \<and> getName en g = x \<longrightarrow> currentLineCount en g = n"
    by (simp_all add: schedule_files)
  have s1: "slocMap st1 x =
      (if \<exists>g \<in> set (cppHeaderFiles (fileMap st)). attach en g \<and> getName en g = x then Some n
       else slocMap st x)"
    unfolding st1_def by (rule fold_slocMap_written [OF headerBody_data(2) a(1)])
  have s2: "slocMap st2 x =
      (if \<exists>g \<in> set (cppImplemFiles (fileMap st)). attach en g \<and> getName en g = x then Some n
       else slocMap st1 x)"
    unfolding st2_def by (rule fold_slocMap_written [OF implemBody_data(2) a(2)])
  have s3: "slocMap st3 x =
      (if \<exists>g \<in> set (csharpFiles (fileMap st)). attach en g \<and> getName en g = x then Some n
       else slocMap st2 x)"
    unfolding st3_def by (rule fold_slocMap_written [OF csharpBody_data(2) a(3)])
  have fin: "slocMap (processSourceCode en sp st) = slocMap st3"
    unfolding processSourceCode_loops st1_def st2_def st3_def by (cases sp) simp_all
  from f have "f \<in> set (cppHeaderFiles (fileMap st)) \<or> f \<in> set (cppImplemFiles (fileMap st)) \<or>
      f \<in> set (csharpFiles (fileMap st))"
    by (simp add: schedule_files)
  with f(2,3) show ?thesis
    unfolding fin s3 s2 s1 by auto
qed

lemma turn_core:
  "core (since st (headerBody en sp f st)) = fileEvents en Cpp f"
  "core (since st (implemBody en sp f st)) = fileEvents en Cpp f"
  "core (since st (csharpBody en sp f st)) = fileEvents en CSharp f"
  by (rule core_since [OF headerBody_grows headerBody_core],
      rule core_since [OF implemBody_grows implemBody_core],
      rule core_since [OF csharpBody_grows csharpBody_core])

lemma schedule_events_explicit:
  "concat (map (\<lambda>(f, l). fileEvents en l f) (schedule fm)) =
   concat (map (\<lambda>(f, l).
     if attach en f
     then [SetPackage (getName en f), Attach f True, SetLanguage l, SetCurrentPath f, Parse f,
           SetSloc (getName en f) (currentLineCount en f)]
     else [SetPackage (getName en f), Attach f False,
           LogWrite Rslt (CHR 0x0A # ''  could not open file '' @ f @ [CHR 0x0A])]) (schedule fm))"
  by (rule arg_cong [where f = concat], rule map_cong)
     (auto simp: fileEvents_def couldNotOpen_def nl_def)

lemma last_write:
  "cr # ''  '' @ setwLeft 77 '' '' = CHR 0x0D # ''  '' @ CHR '' '' # replicate 76 (CHR '' '')"
  by (simp add: cr_def setwLeft_def)

subsection \<open>Facts about a whole run\<close>

lemma emit_frame [simp]:
  "numFiles (emit e st) = numFiles st" "numDirs (emit e st) = numDirs st"
  by (simp_all add: emit_def)

lemma emit_phase [simp]:
  "filter isPhase (trace (emit e st)) = filter isPhase (trace st) @ (if isPhase e then [e] else [])"
  by simp

lemma setLogFile_frame [simp]:
  "path (setLogFile en f st) = path st" "patterns (setLogFile en f st) = patterns st"
  "options (setLogFile en f st) = options st" "fileMap (setLogFile en f st) = fileMap st"
  "filter isPhase (trace (setLogFile en f st)) = filter isPhase (trace st)"
  by (simp_all add: setLogFile_def Let_def)

lemma displayMode_frame [simp]:
  "path (displayMode en c st) = path st" "patterns (displayMode en c st) = patterns st"
  "options (displayMode en c st) = options st" "fileMap (displayMode en c st) = fileMap st"
  "filter isPhase (trace (displayMode en c st)) = filter isPhase (trace st)"
  by (simp_all add: displayMode_def)

lemma fold_displayMode_frame:
  "path (fold (displayMode en) os st) = path st \<and>
   patterns (fold (displayMode en) os st) = patterns st \<and>
   options (fold (displayMode en) os st) = options st \<and>
   fileMap (fold (displayMode en) os st) = fileMap st \<and>
   filter isPhase (trace (fold (displayMode en) os st)) = filter isPhase (trace st)"
  by (induction os arbitrary: st) simp_all

lemma setDisplayModes_frame [simp]:
  "path (setDisplayModes en st) = path st" "patterns (setDisplayModes en st) = patterns st"
  "options (setDisplayModes en st) = options st" "fileMap (setDisplayModes en st) = fileMap st"
  "filter isPhase (trace (setDisplayModes en st)) = filter isPhase (trace st)"
  by (simp_all add: setDisplayModes_def fold_displayMode_frame)

lemma startLogger_frame [simp]:
  "path (startLogger en st) = path st" "patterns (startLogger en st) = patterns st"
  "fileMap (startLogger en st) = fileMap st"
  "filter isPhase (trace (startLogger en st)) = filter isPhase (trace st)"
  by (simp_all add: startLogger_def)

lemma showCommandLineArguments_frame [simp]:
  "path (showCommandLineArguments en argv st) = path st"
  "patterns (showCommandLineArguments en argv st) = patterns st"
  "fileMap (showCommandLineArguments en argv st) = fileMap st"
  "filter isPhase (trace (showCommandLineArguments en argv st)) = filter isPhase (trace st)"
  by (simp_all add: showCommandLineArguments_def)

lemma flushLogger_phase [simp]:
  "filter isPhase (trace (flushLogger st)) = filter isPhase (trace st)"
  by (simp add: flushLogger_def)

lemma stopLogger_phase [simp]:
  "filter isPhase (trace (stopLogger st)) = filter isPhase (trace st)"
  by (simp add: stopLogger_def)

lemma getSourceFiles_trace [simp]: "trace (getSourceFiles en st) = trace st"
  by (simp add: getSourceFiles_def Let_def)

lemma getSourceFiles_fileMap:
  "fileMap (getSourceFiles en st) =
     mgr_fileMap (mgr_search en (searchCalls en (path st) (patterns st)) (AnalFileMgr (path st) (fileMap st)))"
  by (simp add: getSourceFiles_def Let_def)

lemma processSourceCode_phase_trace:
  "filter isPhase (trace (processSourceCode en sp st)) =
     filter isPhase (trace st) @
     concat (map (parserEvents en)
       (cppHeaderFiles (fileMap st) @ cppImplemFiles (fileMap st) @ csharpFiles (fileMap st)))"
proof -
  from processSourceCode_grows [of st en sp] obtain new
    where new: "trace (processSourceCode en sp st) = trace st @ new"
    by (auto simp: prefix_def)
  then have "since st (processSourceCode en sp st) = new"
    by (simp add: since_def)
  with processSourceCode_phases [of st en sp] new show ?thesis by simp
qed

lemma recordArgs_trace:
  "(case recordArgs en i as st of Inl (what, st') \<Rightarrow> trace st' | Inr st' \<Rightarrow> trace st') = trace st"
  by (induction as arbitrary: i st) (simp_all add: recordArg_def split: option.splits)

lemma ProcessCommandLine_phase:
  "filter isPhase (trace (snd (ProcessCommandLine en argv st))) = filter isPhase (trace st)"
proof -
  let ?st1 = "st\<lparr>path := getFullFileSpec en (argv ! 1)\<rparr>"
  from recordArgs_trace [of en 2 "drop 2 argv" ?st1]
  have "(case recordArgs en 2 (drop 2 argv) ?st1 of Inl (what, st') \<Rightarrow> trace st' | Inr st' \<Rightarrow> trace st') = trace st"
    by simp
  then show ?thesis
    by (simp add: ProcessCommandLine_def Let_def showUsage_def parsingError_def
        split: option.splits sum.splits prod.splits del: One_nat_def)
qed

lemma ProcessCommandLine_accepted_trace:
  "fst (ProcessCommandLine en argv st) \<Longrightarrow> trace (snd (ProcessCommandLine en argv st)) = trace st"
proof -
  let ?st1 = "st\<lparr>path := getFullFileSpec en (argv ! 1)\<rparr>"
  from recordArgs_trace [of en 2 "drop 2 argv" ?st1]
  have "(case recordArgs en 2 (drop 2 argv) ?st1 of Inl (what, st') \<Rightarrow> trace st' | Inr st' \<Rightarrow> trace st') = trace st"
    by simp
  then show "fst (ProcessCommandLine en argv st) \<Longrightarrow> trace (snd (ProcessCommandLine en argv st)) = trace st"
    by (auto simp add: ProcessCommandLine_def Let_def
        split: option.splits sum.splits prod.splits if_splits simp del: One_nat_def)
qed

lemma displayMode_grows: "prefix (trace st) (trace (displayMode en c st))"
  by (simp add: displayMode_def setLogFile_def Let_def)

lemma setDisplayModes_grows: "prefix (trace st) (trace (setDisplayModes en st))"
  unfolding setDisplayModes_def by (rule fold_grows) (rule displayMode_grows)

lemma startLogger_grows: "prefix (trace st) (trace (startLogger en st))"
proof -
  let ?st = "emit (LogAttachCout Dbug) (emit (LogAttachCout Demo) (emit (LogAttachCout Rslt) st))"
  have "prefix (trace st) (trace ?st)" by simp
  also have "prefix (trace ?st) (trace (setDisplayModes en ?st))" by (rule setDisplayModes_grows)
  finally show ?thesis by (simp add: startLogger_def)
qed

lemma tryBlock_trace:
  "trace (tryBlock en argv st1) =
     trace (processSourceCode en True (getSourceFiles en
              (emit (LogWrite Rslt [nl]) (showCommandLineArguments en argv
                 (startLogger en (setDisplayModes en st1)))))) @
     [ComplexityEval, LogFlush Rslt, LogFlush Demo, LogFlush Dbug, LogWrite Rslt [nl],
      LogFlush Rslt, LogFlush Demo, LogFlush Dbug, LogStop Rslt, LogStop Demo, LogStop Dbug,
      DependencyTable argv, CallingPublisher, DemonstraingRequirements, GetChar]"
  by (simp add: tryBlock_def Let_def complexityAnalysis_def flushLogger_def stopLogger_def)

lemma tryBlock_grows:
  "\<exists>new. trace (tryBlock en argv st1) = trace st1 @ new @ [GetChar]"
proof -
  define st2 where "st2 = setDisplayModes en st1"
  define st3 where "st3 = startLogger en st2"
  define st5 where "st5 = emit (LogWrite Rslt [nl]) (showCommandLineArguments en argv st3)"
  define st7 where "st7 = processSourceCode en True (getSourceFiles en st5)"
  have "prefix (trace st1) (trace st2)" unfolding st2_def by (rule setDisplayModes_grows)
  also have "prefix (trace st2) (trace st3)" unfolding st3_def by (rule startLogger_grows)
  also have "prefix (trace st3) (trace st5)"
    unfolding st5_def by (simp add: showCommandLineArguments_def)
  also have "prefix (trace st5) (trace st7)"
    unfolding st7_def using processSourceCode_grows [of "getSourceFiles en st5" en True] by simp
  finally obtain new where new: "trace st7 = trace st1 @ new" by (auto simp: prefix_def)
  have "trace (tryBlock en argv st1) = trace st7 @
     [ComplexityEval, LogFlush Rslt, LogFlush Demo, LogFlush Dbug, LogWrite Rslt [nl],
      LogFlush Rslt, LogFlush Demo, LogFlush Dbug, LogStop Rslt, LogStop Demo, LogStop Dbug,
      DependencyTable argv, CallingPublisher, DemonstraingRequirements] @ [GetChar]"
    unfolding tryBlock_trace st7_def st5_def st3_def st2_def by simp
  with new show ?thesis by simp
qed

lemma tryBlock_blockEvents:
  "trace (tryBlock en argv st1) = trace st1 @ blockEvents en argv st1"
  "blockEvents en argv st1 \<noteq> []"
proof -
  from tryBlock_grows [of en argv st1] obtain new
    where new: "trace (tryBlock en argv st1) = trace st1 @ new @ [GetChar]" by blast
  then have be: "blockEvents en argv st1 = new @ [GetChar]" by (simp add: blockEvents_def)
  from new be show "trace (tryBlock en argv st1) = trace st1 @ blockEvents en argv st1" by simp
  from be show "blockEvents en argv st1 \<noteq> []" by simp
qed

lemma tryBlock_phases:
  "filter isPhase (trace (tryBlock en argv st1)) =
     filter isPhase (trace st1) @
     concat (map (parserEvents en)
       (cppHeaderFiles (fileMap (getSourceFiles en st1)) @
        cppImplemFiles (fileMap (getSourceFiles en st1)) @
        csharpFiles (fileMap (getSourceFiles en st1)))) @
     [ComplexityEval, DependencyTable argv]"
proof -
  define st5 where "st5 = emit (LogWrite Rslt [nl]) (showCommandLineArguments en argv
      (startLogger en (setDisplayModes en st1)))"
  have fm: "fileMap (getSourceFiles en st5) = fileMap (getSourceFiles en st1)"
    by (simp add: getSourceFiles_fileMap st5_def)
  have tr5: "filter isPhase (trace st5) = filter isPhase (trace st1)"
    by (simp add: st5_def)
  show ?thesis
    unfolding tryBlock_trace st5_def [symmetric]
    by (simp add: processSourceCode_phase_trace fm tr5)
qed

lemma blockEvents_phases:
  "filter isPhase (blockEvents en argv st1) =
     concat (map (parserEvents en)
       (cppHeaderFiles (fileMap (getSourceFiles en st1)) @
        cppImplemFiles (fileMap (getSourceFiles en st1)) @
        csharpFiles (fileMap (getSourceFiles en st1)))) @
     [ComplexityEval, DependencyTable argv]"
  using tryBlock_phases [of en argv st1] unfolding tryBlock_blockEvents(1) [of en argv st1]
  by simp

lemma caught_phase:
  "filter isPhase (trace (caught what st)) = filter isPhase (trace st)"
  by (simp add: caught_def)

lemma newExec_trace [simp]: "trace (newExec lang) = []"
  by (simp add: newExec_def)

text \<open>How a run ends, and its events in each case.\<close>

lemma main_terminated:
  "\<not> parserBuilt en \<Longrightarrow>
     main en argv = (Terminated (''couldn'' @ [CHR 0x27] @ ''t create parser''), [])"
  by (simp add: main_def CodeAnalysisExecutive_def)

lemma main_rejected:
  "parserBuilt en \<Longrightarrow> \<not> fst (ProcessCommandLine en argv (newExec (initialLanguage en))) \<Longrightarrow>
     main en argv = (Returned 1, trace (snd (ProcessCommandLine en argv (newExec (initialLanguage en)))))"
  by (simp add: main_def CodeAnalysisExecutive_def case_prod_unfold)

lemma main_completed:
  "parserBuilt en \<Longrightarrow> fst (ProcessCommandLine en argv (newExec (initialLanguage en))) \<Longrightarrow>
   \<not> mainRaises en argv \<Longrightarrow>
     main en argv = (Returned 0,
       trace (tryBlock en argv (snd (ProcessCommandLine en argv (newExec (initialLanguage en))))))"
  by (auto simp add: main_def CodeAnalysisExecutive_def case_prod_unfold mainRaises_def
      split: option.splits)

lemma main_caught:
  "parserBuilt en \<Longrightarrow> fst (ProcessCommandLine en argv (newExec (initialLanguage en))) \<Longrightarrow>
   mainThrows en argv = Some (k, what) \<Longrightarrow>
   k < length (blockEvents en argv (snd (ProcessCommandLine en argv (newExec (initialLanguage en))))) \<Longrightarrow>
     main en argv = (Returned 1,
       trace (caught what
         ((snd (ProcessCommandLine en argv (newExec (initialLanguage en))))
            \<lparr>trace := trace (snd (ProcessCommandLine en argv (newExec (initialLanguage en)))) @
               take k (blockEvents en argv
                 (snd (ProcessCommandLine en argv (newExec (initialLanguage en)))))\<rparr>)))"
  by (simp add: main_def CodeAnalysisExecutive_def case_prod_unfold)

lemma main_outcome:
  "fst (main en argv) =
     (if \<not> parserBuilt en then Terminated (''couldn'' @ [CHR 0x27] @ ''t create parser'')
      else if fst (ProcessCommandLine en argv (newExec (initialLanguage en))) \<and> \<not> mainRaises en argv
      then Returned 0 else Returned 1)"
  by (simp add: main_def CodeAnalysisExecutive_def case_prod_unfold mainRaises_def
      split: option.splits)

lemma main_phases_prefix:
  "prefix (filter isPhase (snd (main en argv)))
     (concat (map (parserEvents en)
        (cppHeaderFiles (discovered en argv) @ cppImplemFiles (discovered en argv) @
         csharpFiles (discovered en argv))) @
      [ComplexityEval, DependencyTable argv])"
proof -
  define st1 where "st1 = snd (ProcessCommandLine en argv (newExec (initialLanguage en)))"
  let ?full = "concat (map (parserEvents en)
        (cppHeaderFiles (discovered en argv) @ cppImplemFiles (discovered en argv) @
         csharpFiles (discovered en argv))) @ [ComplexityEval, DependencyTable argv]"
  have tr1: "filter isPhase (trace st1) = []"
    unfolding st1_def by (simp add: ProcessCommandLine_phase)
  have be: "filter isPhase (blockEvents en argv st1) = ?full"
    by (simp add: blockEvents_phases discovered_def st1_def)
  have whole: "filter isPhase (trace (tryBlock en argv st1)) = ?full"
    by (simp add: tryBlock_blockEvents(1) tr1 be)
  have cut: "prefix (filter isPhase (take k (blockEvents en argv st1))) ?full" for k
    using filter_mono_prefix [OF take_is_prefix, of isPhase k "blockEvents en argv st1"]
    by (simp only: be)
  show ?thesis
  proof (cases "parserBuilt en")
    case False
    then show ?thesis by (simp add: main_terminated)
  next
    case built: True
    show ?thesis
    proof (cases "fst (ProcessCommandLine en argv (newExec (initialLanguage en)))")
      case False
      with built show ?thesis by (simp add: main_rejected tr1 [unfolded st1_def])
    next
      case acc: True
      show ?thesis
      proof (cases "mainRaises en argv")
        case False
        with built acc show ?thesis
          by (simp add: main_completed whole [unfolded st1_def])
      next
        case True
        then obtain k what where th: "mainThrows en argv = Some (k, what)"
          and k: "k < length (blockEvents en argv st1)"
          by (auto simp: mainRaises_def st1_def split: option.splits)
        from main_caught [OF built acc th k [unfolded st1_def]]
        have "filter isPhase (snd (main en argv)) = filter isPhase (take k (blockEvents en argv st1))"
          by (simp add: caught_phase ProcessCommandLine_phase st1_def)
        with cut [of k] show ?thesis by simp
      qed
    qed
  qed
qed

lemma main_phases_completed:
  "parserBuilt en \<Longrightarrow> fst (ProcessCommandLine en argv (newExec (initialLanguage en))) \<Longrightarrow>
   \<not> mainRaises en argv \<Longrightarrow>
   filter isPhase (snd (main en argv)) =
     concat (map (parserEvents en)
        (cppHeaderFiles (discovered en argv) @ cppImplemFiles (discovered en argv) @
         csharpFiles (discovered en argv))) @
      [ComplexityEval, DependencyTable argv]"
  by (simp add: main_completed tryBlock_phases ProcessCommandLine_phase discovered_def)

lemma main_phases_none:
  "\<not> (parserBuilt en \<and> fst (ProcessCommandLine en argv (newExec (initialLanguage en)))) \<Longrightarrow>
   filter isPhase (snd (main en argv)) = []"
  by (cases "parserBuilt en") (simp_all add: main_terminated main_rejected ProcessCommandLine_phase)

text \<open>The sample runs.\<close>

lemma run_accepted:
  "parserBuilt runEnv"
  "fst (ProcessCommandLine runEnv [''analyzer'', ''src'', ''*.h'', ''*.cpp'', ''*.cs'', ''/m'']
      (newExec (initialLanguage runEnv)))"
  "snd (ProcessCommandLine runEnv [''analyzer'', ''src'', ''*.h'', ''*.cpp'', ''*.cs'', ''/m'']
      (newExec (initialLanguage runEnv))) =
   (newExec Cpp)\<lparr>path := ''src'', patterns := [''*.h'', ''*.cpp'', ''*.cs''], options := ''m''\<rparr>"
  by (simp_all add: runEnv_def sampleEnv_def ProcessCommandLine_def newExec_def Let_def recordArg_def cstrAt_def)

lemma run_discovered:
  "discovered runEnv [''analyzer'', ''src'', ''*.h'', ''*.cpp'', ''*.cs'', ''/m''] =
     [(''*.h'', [''src'' @ [bslash] @ ''a.h'']), (''*.cpp'', [''src'' @ [bslash] @ ''b.cpp'']),
      (''*.cs'', [''src'' @ [bslash] @ ''c.cs''])]"
  by (simp add: discovered_def getSourceFiles_def Let_def runEnv_def sampleEnv_def mgr_search_def
      AnalFileMgr_def mgr_dir_def mgr_file_def afterLast_def bslash_def
      ProcessCommandLine_def newExec_def recordArg_def cstrAt_def)

lemma run_lists:
  "cppHeaderFiles (discovered runEnv [''analyzer'', ''src'', ''*.h'', ''*.cpp'', ''*.cs'', ''/m'']) = [''src'' @ [bslash] @ ''a.h'']"
  "cppImplemFiles (discovered runEnv [''analyzer'', ''src'', ''*.h'', ''*.cpp'', ''*.cs'', ''/m'']) = [''src'' @ [bslash] @ ''b.cpp'']"
  "csharpFiles (discovered runEnv [''analyzer'', ''src'', ''*.h'', ''*.cpp'', ''*.cs'', ''/m'']) = [''src'' @ [bslash] @ ''c.cs'']"
  unfolding run_discovered
  by (simp_all add: cppHeaderFiles_def cppImplemFiles_def csharpFiles_def contains_def)

lemma run_quiet:
  "\<not> mainRaises runEnv [''analyzer'', ''src'', ''*.h'', ''*.cpp'', ''*.cs'', ''/m'']"
  by (simp add: mainRaises_def runEnv_def sampleEnv_def)

lemma thr_accepted:
  "parserBuilt thrEnv"
  "fst (ProcessCommandLine thrEnv [''analyzer'', ''src'', ''*.h'', ''*.cpp'', ''*.cs'', ''/m'']
      (newExec (initialLanguage thrEnv)))"
  "snd (ProcessCommandLine thrEnv [''analyzer'', ''src'', ''*.h'', ''*.cpp'', ''*.cs'', ''/m'']
      (newExec (initialLanguage thrEnv))) =
   (newExec Cpp)\<lparr>path := ''src'', patterns := [''*.h'', ''*.cpp'', ''*.cs''], options := ''m''\<rparr>"
  "mainThrows thrEnv [''analyzer'', ''src'', ''*.h'', ''*.cpp'', ''*.cs'', ''/m''] = Some (16, ''bad allocation'')"
  by (simp_all add: thrEnv_def runEnv_def sampleEnv_def ProcessCommandLine_def newExec_def Let_def
      recordArg_def cstrAt_def)

lemma thr_block:
  "take 17 (blockEvents thrEnv [''analyzer'', ''src'', ''*.h'', ''*.cpp'', ''*.cs'', ''/m'']
     ((newExec Cpp)\<lparr>path := ''src'', patterns := [''*.h'', ''*.cpp'', ''*.cs''], options := ''m''\<rparr>)) =
   [LogAttachCout Rslt, LogAttachCout Demo, LogAttachCout Dbug,
    LogWrite Rslt (nl # ''     Path: '' @ [dq] @ ''src'' @ [dq, nl] @ ''     Args: *.h, *.cpp, *.cs, /m''),
    LogFlush Rslt, LogWrite Rslt [nl],
    Cout (cr # ''     Processing file: '' @ ''src'' @ [bslash] @ ''a.h'' @ replicate 73 (CHR '' '')),
    SetPackage ''a.h'', Attach (''src'' @ [bslash] @ ''a.h'') True,
    LogFlush Rslt, LogFlush Demo, LogFlush Dbug, SetLanguage Cpp,
    SetCurrentPath (''src'' @ [bslash] @ ''a.h''), Parse (''src'' @ [bslash] @ ''a.h''),
    SetSloc ''a.h'' 17,
    Cout (cr # ''     Processing file: '' @ ''src'' @ [bslash] @ ''b.cpp'' @ replicate 71 (CHR '' ''))]"
  by (simp add: blockEvents_def tryBlock_def Let_def thrEnv_def runEnv_def sampleEnv_def newExec_def
      setDisplayModes_def displayMode_def startLogger_def showCommandLineArguments_def
      getSourceFiles_def mgr_search_def AnalFileMgr_def mgr_dir_def mgr_file_def afterLast_def
      processSourceCode_def cppHeaderFiles_def cppImplemFiles_def csharpFiles_def contains_def
      headerBody_def implemBody_def csharpBody_def showActivity_def clearActivity_def announce_def
      assignPackage_def assignLanguage_def assignCurrentPath_def parseAndCount_def recordSloc_def
      complexityAnalysis_def flushLogger_def stopLogger_def emit_def bslash_def setwLeft_def trunc_def)

lemma take_less_length:
  assumes "take n xs = ys" and "k < length ys"
  shows "k < length xs \<and> take k xs = take k ys"
proof -
  from assms have "k < min (length xs) n" by auto
  then have "k < length xs" and "k < n" by simp_all
  moreover from assms(1) \<open>k < n\<close> have "take k ys = take k xs" by (auto simp: min_def)
  ultimately show ?thesis by simp
qed

lemma thr_cut:
  "16 < length (blockEvents thrEnv [''analyzer'', ''src'', ''*.h'', ''*.cpp'', ''*.cs'', ''/m'']
     (snd (ProcessCommandLine thrEnv [''analyzer'', ''src'', ''*.h'', ''*.cpp'', ''*.cs'', ''/m'']
       (newExec (initialLanguage thrEnv)))))"
  "take 16 (blockEvents thrEnv [''analyzer'', ''src'', ''*.h'', ''*.cpp'', ''*.cs'', ''/m'']
     (snd (ProcessCommandLine thrEnv [''analyzer'', ''src'', ''*.h'', ''*.cpp'', ''*.cs'', ''/m'']
       (newExec (initialLanguage thrEnv))))) =
      [LogAttachCout Rslt, LogAttachCout Demo, LogAttachCout Dbug,
       LogWrite Rslt (nl # ''     Path: '' @ [dq] @ ''src'' @ [dq, nl] @ ''     Args: *.h, *.cpp, *.cs, /m''),
       LogFlush Rslt, LogWrite Rslt [nl],
       Cout (cr # ''     Processing file: '' @ ''src'' @ [bslash] @ ''a.h'' @ replicate 73 (CHR '' '')),
       SetPackage ''a.h'', Attach (''src'' @ [bslash] @ ''a.h'') True,
       LogFlush Rslt, LogFlush Demo, LogFlush Dbug, SetLanguage Cpp,
       SetCurrentPath (''src'' @ [bslash] @ ''a.h''), Parse (''src'' @ [bslash] @ ''a.h''),
       SetSloc ''a.h'' 17]"
  unfolding thr_accepted(3) using take_less_length [OF thr_block, of 16] by simp_all

lemma thr_main:
  "main thrEnv [''analyzer'', ''src'', ''*.h'', ''*.cpp'', ''*.cs'', ''/m''] =
   (Returned 1,
    [LogAttachCout Rslt, LogAttachCout Demo, LogAttachCout Dbug,
     LogWrite Rslt (nl # ''     Path: '' @ [dq] @ ''src'' @ [dq, nl] @ ''     Args: *.h, *.cpp, *.cs, /m''),
     LogFlush Rslt, LogWrite Rslt [nl],
     Cout (cr # ''     Processing file: '' @ ''src'' @ [bslash] @ ''a.h'' @ replicate 73 (CHR '' '')),
     SetPackage ''a.h'', Attach (''src'' @ [bslash] @ ''a.h'') True,
     LogFlush Rslt, LogFlush Demo, LogFlush Dbug, SetLanguage Cpp,
     SetCurrentPath (''src'' @ [bslash] @ ''a.h''), Parse (''src'' @ [bslash] @ ''a.h''),
     SetSloc ''a.h'' 17,
     LogFlush Rslt, LogFlush Demo, LogFlush Dbug,
     Cout ([nl, nl] @ ''  caught exception in Executive::main: bad allocation'' @ [nl, nl]),
     LogFlush Rslt, LogFlush Demo, LogFlush Dbug, LogStop Rslt, LogStop Demo, LogStop Dbug])"
  unfolding main_caught [OF thr_accepted(1) thr_accepted(2) thr_accepted(4) thr_cut(1)] thr_cut(2)
  by (simp add: thr_accepted(3) caught_def flushLogger_def stopLogger_def)

subsection \<open>Facts about the metrics line\<close>

lemma length_setwRight: "length (setwRight w s) = max w (length s)"
  by (simp add: setwRight_def)

lemma length_setwRight_fit: "length s \<le> w \<Longrightarrow> length (setwRight w s) = w"
  by (simp add: setwRight_def)

lemma length_decimal: "0 < k \<Longrightarrow> n < 10 ^ k \<Longrightarrow> length (decimal n) \<le> k"
proof (induction n arbitrary: k rule: decimal.induct)
  case (1 n)
  show ?case
  proof (cases "n < 10")
    case True
    with "1.prems" show ?thesis by (simp add: decimal.simps [of n])
  next
    case False
    with "1.prems" obtain j where k: "k = Suc j" and j: "0 < j"
      by (cases k; cases "k - 1") auto
    from "1.prems" k have "n div 10 < 10 ^ j"
      by (simp add: less_mult_imp_div_less mult.commute)
    from "1.IH" [OF False j this] False k show ?thesis
      by (simp add: decimal.simps [of n])
  qed
qed

lemma cells_Cons_fit: "length a = w \<Longrightarrow> cells (w # ws) (a @ rest) = a # cells ws rest"
  by simp

lemma unat_size:
  fixes a b :: "'w::len word"
  assumes "a \<le> b" and "unat b - unat a + 1 < 2 ^ LENGTH('w)"
  shows "unat (b - a + 1) = unat b - unat a + 1"
proof -
  have "unat (b - a) = unat b - unat a"
    using assms(1) by (rule unat_sub)
  moreover have "unat (b - a) + unat (1 :: 'w word) < 2 ^ LENGTH('w)"
    using assms(2) calculation by simp
  ultimately show ?thesis
    using unat_add_lem [of "b - a" 1] by simp
qed

lemma digitValue_digit: "d < 10 \<Longrightarrow> digitValue (digit d) = d"
proof -
  assume "d < 10"
  then consider "d = 0" | "d = 1" | "d = 2" | "d = 3" | "d = 4" | "d = 5" | "d = 6" | "d = 7"
    | "d = 8" | "d = 9"
    by atomize_elim arith
  then show ?thesis
    by cases (simp_all add: digit_def digitValue_def)
qed

lemma readDecimal_snoc: "readDecimal (s @ [c]) = 10 * readDecimal s + digitValue c"
  by (simp add: readDecimal_def)

lemma readDecimal_decimal: "readDecimal (decimal n) = n"
proof (induction n rule: decimal.induct)
  case (1 n)
  show ?case
  proof (cases "n < 10")
    case True
    then show ?thesis
      by (simp add: decimal.simps [of n] readDecimal_def digitValue_digit)
  next
    case False
    with "1.IH" show ?thesis
      by (simp add: decimal.simps [of n] readDecimal_snoc digitValue_digit)
  qed
qed

lemma decimal_nonempty: "decimal n \<noteq> []"
  by (simp add: decimal.simps [of n])

lemma digit_in: "d < 10 \<Longrightarrow> digit d \<in> set ''0123456789''"
proof -
  assume "d < 10"
  then consider "d = 0" | "d = 1" | "d = 2" | "d = 3" | "d = 4" | "d = 5" | "d = 6" | "d = 7"
    | "d = 8" | "d = 9"
    by atomize_elim arith
  then show ?thesis
    by cases (simp_all add: digit_def)
qed

lemma decimal_digits: "set (decimal n) \<subseteq> set ''0123456789''"
proof (induction n rule: decimal.induct)
  case (1 n)
  show ?case
  proof (cases "n < 10")
    case True
    with digit_in [of n] show ?thesis
      by (simp add: decimal.simps [of n])
  next
    case False
    have "digit (n mod 10) \<in> set ''0123456789''" by (rule digit_in) simp
    with "1.IH" [OF False] False show ?thesis
      by (simp add: decimal.simps [of n])
  qed
qed

lemma digit_zero: "d < 10 \<Longrightarrow> digit d = CHR ''0'' \<longleftrightarrow> d = 0"
proof -
  assume "d < 10"
  then consider "d = 0" | "d = 1" | "d = 2" | "d = 3" | "d = 4" | "d = 5" | "d = 6" | "d = 7"
    | "d = 8" | "d = 9"
    by atomize_elim arith
  then show ?thesis
    by cases (simp_all add: digit_def)
qed

lemma decimal_leading: "0 < n \<Longrightarrow> hd (decimal n) \<noteq> CHR ''0''"
proof (induction n rule: decimal.induct)
  case (1 n)
  show ?case
  proof (cases "n < 10")
    case True
    with "1.prems" show ?thesis
      by (simp add: decimal.simps [of n] digit_zero)
  next
    case False
    then have "0 < n div 10" by simp
    from "1.IH" [OF False this] False show ?thesis
      by (simp add: decimal.simps [of n] decimal_nonempty)
  qed
qed

lemma metricsLine_cells:
  fixes pNode :: "('w::len) word ASTNode"
  assumes fit: "length (node_type pNode) \<le> 12 \<and>
          unat (startLineCount pNode) < 10 ^ 8 \<and>
          unat (endLineCount pNode - startLineCount pNode + 1) < 10 ^ 8 \<and>
          unat (complexity pNode) < 10 ^ 8"
  shows "cells [25, 12, 35, 8, 8, 8] (drop 2 (metricsLine f pNode)) =
              [setwRight 25 (trunc f 23),
               setwRight 12 (node_type pNode),
               setwRight 35 (trunc (node_name pNode) 33),
               setwRight 8 (decimal (unat (startLineCount pNode))),
               setwRight 8 (decimal (unat (endLineCount pNode - startLineCount pNode + 1))),
               setwRight 8 (decimal (unat (complexity pNode)))]"
proof -
  let ?c1 = "setwRight 25 (trunc f 23)"
  let ?c2 = "setwRight 12 (node_type pNode)"
  let ?c3 = "setwRight 35 (trunc (node_name pNode) 33)"
  let ?c4 = "setwRight 8 (decimal (unat (startLineCount pNode)))"
  let ?c5 = "setwRight 8 (decimal (unat (endLineCount pNode - startLineCount pNode + 1)))"
  let ?c6 = "setwRight 8 (decimal (unat (complexity pNode)))"
  from fit have a: "length (node_type pNode) \<le> 12" "unat (startLineCount pNode) < 10 ^ 8"
    "unat (endLineCount pNode - startLineCount pNode + 1) < 10 ^ 8"
    "unat (complexity pNode) < 10 ^ 8"
    by simp_all
  have l1: "length ?c1 = 25"
    by (rule length_setwRight_fit) (simp add: trunc_def)
  have l2: "length ?c2 = 12"
    by (rule length_setwRight_fit) (rule a(1))
  have l3: "length ?c3 = 35"
    by (rule length_setwRight_fit) (simp add: trunc_def)
  have l4: "length ?c4 = 8"
    by (rule length_setwRight_fit) (rule length_decimal [OF _ a(2)], simp)
  have l5: "length ?c5 = 8"
    by (rule length_setwRight_fit) (rule length_decimal [OF _ a(3)], simp)
  have l6: "length ?c6 = 8"
    by (rule length_setwRight_fit) (rule length_decimal [OF _ a(4)], simp)
  have line: "drop 2 (metricsLine f pNode) = ?c1 @ ?c2 @ ?c3 @ ?c4 @ ?c5 @ ?c6 @ []"
    by (simp add: metricsLine_def)
  show ?thesis
    unfolding line
    by (simp only: cells_Cons_fit [OF l1] cells_Cons_fit [OF l2] cells_Cons_fit [OF l3]
        cells_Cons_fit [OF l4] cells_Cons_fit [OF l5] cells_Cons_fit [OF l6] cells.simps(1))
qed

lemma blanks:
  "replicate 12 (CHR '' '') = ''            ''"
  "replicate 4 (CHR '' '') = ''    ''"
  "replicate 31 (CHR '' '') = ''                               ''"
  "replicate 5 (CHR '' '') = ''     ''"
  "replicate 6 (CHR '' '') = ''      ''"
  "replicate 7 (CHR '' '') = ''       ''"
  by (simp_all add: numeral_eq_Suc)

lemma sample_decimals: "decimal 838 = ''838''" "decimal 31 = ''31''" "decimal 3 = ''3''"
  by (simp_all add: decimal.simps digit_def)

section \<open>The claims\<close>

subsection \<open>C1: headers, then implementation files, then C# files\<close>

text \<open>
  C1: on a file table in which every file stands under the key of its own extension (as
  \<open>AnalFileMgr\<close> fills it, see \<open>mgr_search_inv\<close>), whatever the order of its entries
  and of the files in them, the parser events of \<open>processSourceCode\<close> are those of the
  header files, each file attached and parsed to its end before the next is attached,
  then those of the implementation files, then those of the C# files. So in the events
  of the call no event of a \<^verbatim>\<open>.h\<close> file comes after an event of a \<^verbatim>\<open>.cpp\<close> or
  \<^verbatim>\<open>.cs\<close> file, and no event of a \<^verbatim>\<open>.cpp\<close> file after an event of a \<^verbatim>\<open>.cs\<close>
  file.
\<close>

theorem headers_then_implementations_then_csharp:
  assumes inv: "fileMap_inv en (fileMap st)"
  shows "filter isPhase (since st (processSourceCode en sp st)) =
           concat (map (parserEvents en) (cppHeaderFiles (fileMap st))) @
           concat (map (parserEvents en) (cppImplemFiles (fileMap st))) @
           concat (map (parserEvents en) (csharpFiles (fileMap st))) \<and>
         (\<forall>xs e ys e' f g.
            since st (processSourceCode en sp st) = xs @ e # ys \<and> e' \<in> set ys \<and>
            fileOf e = Some g \<and> fileOf e' = Some f \<longrightarrow>
              \<not> (getExt en f = ''h'' \<and> (getExt en g = ''cpp'' \<or> getExt en g = ''cs'')) \<and>
              \<not> (getExt en f = ''cpp'' \<and> getExt en g = ''cs''))"
proof (intro conjI allI impI)
  let ?A = "concat (map (parserEvents en) (cppHeaderFiles (fileMap st)))"
  let ?B = "concat (map (parserEvents en) (cppImplemFiles (fileMap st)))"
  let ?C = "concat (map (parserEvents en) (csharpFiles (fileMap st)))"
  show dec: "filter isPhase (since st (processSourceCode en sp st)) = ?A @ ?B @ ?C"
    by (simp add: processSourceCode_phases)
  fix xs e ys e' f g
  assume a: "since st (processSourceCode en sp st) = xs @ e # ys \<and> e' \<in> set ys \<and>
            fileOf e = Some g \<and> fileOf e' = Some f"
  then have pe: "isPhase e" and pe': "isPhase e'"
    by (auto intro: fileOf_isPhase)
  from a pe have split: "filter isPhase xs @ e # filter isPhase ys = ?A @ ?B @ ?C"
    using dec by simp
  from a pe' have e'_in: "e' \<in> set (filter isPhase ys)" by simp
  have inA: "g \<in> set (cppHeaderFiles (fileMap st))" if "e \<in> set ?A"
    using parserEvents_file [OF that] a by auto
  have inB: "g \<in> set (cppImplemFiles (fileMap st))" if "e \<in> set ?B"
    using parserEvents_file [OF that] a by auto
  have e'A: "f \<in> set (cppHeaderFiles (fileMap st))" if "e' \<in> set ?A"
    using parserEvents_file [OF that] a by auto
  have e'B: "f \<in> set (cppImplemFiles (fileMap st))" if "e' \<in> set ?B"
    using parserEvents_file [OF that] a by auto
  have e'C: "f \<in> set (csharpFiles (fileMap st))" if "e' \<in> set ?C"
    using parserEvents_file [OF that] a by auto
  show "\<not> (getExt en f = ''h'' \<and> (getExt en g = ''cpp'' \<or> getExt en g = ''cs''))"
  proof
    assume h: "getExt en f = ''h'' \<and> (getExt en g = ''cpp'' \<or> getExt en g = ''cs'')"
    then have "g \<notin> set (cppHeaderFiles (fileMap st))"
      using implem_ext(1) [OF inv] csharp_ext(1) [OF inv] by blast
    with inA have "e \<notin> set ?A" by blast
    from split_right [OF split this] e'_in have "e' \<in> set ?B \<or> e' \<in> set ?C" by auto
    with e'B e'C have "f \<in> set (cppImplemFiles (fileMap st)) \<or> f \<in> set (csharpFiles (fileMap st))"
      by blast
    with header_ext [OF inv] h show False by blast
  qed
  show "\<not> (getExt en f = ''cpp'' \<and> getExt en g = ''cs'')"
  proof
    assume h: "getExt en f = ''cpp'' \<and> getExt en g = ''cs''"
    then have "g \<notin> set (cppHeaderFiles (fileMap st))" "g \<notin> set (cppImplemFiles (fileMap st))"
      using csharp_ext [OF inv] by blast+
    with inA inB have "e \<notin> set (?A @ ?B)" by auto
    moreover from split have "filter isPhase xs @ e # filter isPhase ys = (?A @ ?B) @ ?C" by simp
    ultimately have "set (filter isPhase ys) \<subseteq> set ?C" by (rule split_right [rotated])
    with e'_in e'C have "f \<in> set (csharpFiles (fileMap st))" by blast
    with implem_ext(2) [OF inv] h show False by blast
  qed
qed

theorem headers_then_implementations_then_csharp_witness:
  "fileMap_inv sampleEnv (fileMap ((newExec Cpp)\<lparr>fileMap := sampleMap\<rparr>)) \<and>
   filter isPhase (since ((newExec Cpp)\<lparr>fileMap := sampleMap\<rparr>)
       (processSourceCode sampleEnv True ((newExec Cpp)\<lparr>fileMap := sampleMap\<rparr>))) =
     [Attach (''src'' @ [bslash] @ ''d.hpp'') True, Parse (''src'' @ [bslash] @ ''d.hpp''),
      Attach (''src'' @ [bslash] @ ''a.h'') True, Parse (''src'' @ [bslash] @ ''a.h''),
      Attach (''src'' @ [bslash] @ ''b.cpp'') False,
      Attach (''src'' @ [bslash] @ ''c.cs'') True, Parse (''src'' @ [bslash] @ ''c.cs'')] \<and>
   \<not> (\<exists>xs ys.
        since ((newExec Cpp)\<lparr>fileMap := sampleMap\<rparr>)
          (processSourceCode sampleEnv True ((newExec Cpp)\<lparr>fileMap := sampleMap\<rparr>)) =
          xs @ Attach (''src'' @ [bslash] @ ''b.cpp'') False # ys \<and>
        Parse (''src'' @ [bslash] @ ''a.h'') \<in> set ys)"
proof -
  let ?st = "(newExec Cpp)\<lparr>fileMap := sampleMap\<rparr>"
  let ?a = "''src'' @ [bslash] @ ''a.h''"
  let ?b = "''src'' @ [bslash] @ ''b.cpp''"
  have inv: "fileMap_inv sampleEnv (fileMap ?st)"
    by (simp add: sample_inv)
  note t = headers_then_implementations_then_csharp [OF inv, of True]
  from t have run: "filter isPhase (since ?st (processSourceCode sampleEnv True ?st)) =
     [Attach (''src'' @ [bslash] @ ''d.hpp'') True, Parse (''src'' @ [bslash] @ ''d.hpp''),
      Attach ?a True, Parse ?a, Attach ?b False,
      Attach (''src'' @ [bslash] @ ''c.cs'') True, Parse (''src'' @ [bslash] @ ''c.cs'')]"
    by (simp add: sample_lists parserEvents_def sampleEnv_def bslash_def)
  have ext: "getExt sampleEnv ?a = ''h''" "getExt sampleEnv ?b = ''cpp''"
    by (simp_all add: sampleEnv_def afterLast_def bslash_def)
  have order: "\<not> (\<exists>xs ys. since ?st (processSourceCode sampleEnv True ?st) = xs @ Attach ?b False # ys \<and>
      Parse ?a \<in> set ys)"
  proof
    assume "\<exists>xs ys. since ?st (processSourceCode sampleEnv True ?st) = xs @ Attach ?b False # ys \<and>
      Parse ?a \<in> set ys"
    then obtain xs ys where
      s: "since ?st (processSourceCode sampleEnv True ?st) = xs @ Attach ?b False # ys"
      and m: "Parse ?a \<in> set ys"
      by blast
    have f: "fileOf (Attach ?b False) = Some ?b" "fileOf (Parse ?a) = Some ?a"
      by simp_all
    from t have "\<not> (getExt sampleEnv ?a = ''h'' \<and>
        (getExt sampleEnv ?b = ''cpp'' \<or> getExt sampleEnv ?b = ''cs''))"
      using s m f by blast
    with ext show False by blast
  qed
  from inv run order show ?thesis by (intro conjI)
qed

subsection \<open>C2: the two passes after the parse\<close>

text \<open>
  C2, as the code has it. \<open>isPhase\<close> keeps the attach and parse events and the events
  of the two passes. In every run these events are a beginning of the sequence: the
  parser events of every file of the three loops, then the complexity evaluation, once,
  then the type-dependency analysis, once. So no pass runs twice, a pass runs only after
  the last file has been parsed, and no file is attached or parsed after a pass has
  begun. A run that returns 0 has the whole sequence: each pass has run exactly once.
  \<open>main\<close> returns 0 when the parser was built, \<open>ProcessCommandLine\<close> accepts the
  command line and nothing throws inside the \<^verbatim>\<open>try\<close> block. When the parser was not
  built or the command line is rejected, no file is parsed and neither pass runs.
\<close>

theorem passes_once_after_parsing:
  "prefix (filter isPhase (snd (main en argv)))
     (concat (map (parserEvents en)
        (cppHeaderFiles (discovered en argv) @ cppImplemFiles (discovered en argv) @
         csharpFiles (discovered en argv))) @
      [ComplexityEval, DependencyTable argv]) \<and>
   (fst (main en argv) = Returned 0 \<longrightarrow>
      filter isPhase (snd (main en argv)) =
        concat (map (parserEvents en)
          (cppHeaderFiles (discovered en argv) @ cppImplemFiles (discovered en argv) @
           csharpFiles (discovered en argv))) @
        [ComplexityEval, DependencyTable argv]) \<and>
   (parserBuilt en \<and> fst (ProcessCommandLine en argv (newExec (initialLanguage en))) \<and>
    \<not> mainRaises en argv \<longrightarrow> fst (main en argv) = Returned 0) \<and>
   (\<not> (parserBuilt en \<and> fst (ProcessCommandLine en argv (newExec (initialLanguage en)))) \<longrightarrow>
      filter isPhase (snd (main en argv)) = [])"
proof (intro conjI impI)
  show "prefix (filter isPhase (snd (main en argv)))
     (concat (map (parserEvents en)
        (cppHeaderFiles (discovered en argv) @ cppImplemFiles (discovered en argv) @
         csharpFiles (discovered en argv))) @
      [ComplexityEval, DependencyTable argv])"
    by (rule main_phases_prefix)
next
  assume "fst (main en argv) = Returned 0"
  then have "parserBuilt en" "fst (ProcessCommandLine en argv (newExec (initialLanguage en)))"
    "\<not> mainRaises en argv"
    by (simp_all add: main_outcome split: if_splits)
  then show "filter isPhase (snd (main en argv)) =
        concat (map (parserEvents en)
          (cppHeaderFiles (discovered en argv) @ cppImplemFiles (discovered en argv) @
           csharpFiles (discovered en argv))) @
        [ComplexityEval, DependencyTable argv]"
    by (rule main_phases_completed)
next
  assume "parserBuilt en \<and> fst (ProcessCommandLine en argv (newExec (initialLanguage en))) \<and>
    \<not> mainRaises en argv"
  then show "fst (main en argv) = Returned 0" by (simp add: main_outcome)
next
  assume "\<not> (parserBuilt en \<and> fst (ProcessCommandLine en argv (newExec (initialLanguage en))))"
  then show "filter isPhase (snd (main en argv)) = []" by (rule main_phases_none)
qed

text \<open>
  The run on \<^verbatim>\<open>src *.h *.cpp *.cs /m\<close> in which nothing throws, and the run without
  arguments.
\<close>

theorem passes_once_after_parsing_witness:
  "parserBuilt runEnv \<and>
   fst (ProcessCommandLine runEnv [''analyzer'', ''src'', ''*.h'', ''*.cpp'', ''*.cs'', ''/m'']
      (newExec (initialLanguage runEnv))) \<and>
   \<not> mainRaises runEnv [''analyzer'', ''src'', ''*.h'', ''*.cpp'', ''*.cs'', ''/m''] \<and>
   fst (main runEnv [''analyzer'', ''src'', ''*.h'', ''*.cpp'', ''*.cs'', ''/m'']) = Returned 0 \<and>
   filter isPhase (snd (main runEnv [''analyzer'', ''src'', ''*.h'', ''*.cpp'', ''*.cs'', ''/m''])) =
     [Attach (''src'' @ [CHR 0x5C] @ ''a.h'') True, Parse (''src'' @ [CHR 0x5C] @ ''a.h''),
      Attach (''src'' @ [CHR 0x5C] @ ''b.cpp'') False,
      Attach (''src'' @ [CHR 0x5C] @ ''c.cs'') True, Parse (''src'' @ [CHR 0x5C] @ ''c.cs''),
      ComplexityEval,
      DependencyTable [''analyzer'', ''src'', ''*.h'', ''*.cpp'', ''*.cs'', ''/m'']] \<and>
   \<not> fst (ProcessCommandLine runEnv [''analyzer''] (newExec (initialLanguage runEnv))) \<and>
   filter isPhase (snd (main runEnv [''analyzer''])) = []"
proof -
  let ?argv = "[''analyzer'', ''src'', ''*.h'', ''*.cpp'', ''*.cs'', ''/m'']"
  have rej: "\<not> fst (ProcessCommandLine runEnv [''analyzer''] (newExec (initialLanguage runEnv)))"
    by (simp add: ProcessCommandLine_def)
  from passes_once_after_parsing [of runEnv ?argv] run_accepted(1,2) run_quiet
  have ret: "fst (main runEnv ?argv) = Returned 0" by blast
  with passes_once_after_parsing [of runEnv ?argv]
  have "filter isPhase (snd (main runEnv ?argv)) =
        concat (map (parserEvents runEnv)
          (cppHeaderFiles (discovered runEnv ?argv) @ cppImplemFiles (discovered runEnv ?argv) @
           csharpFiles (discovered runEnv ?argv))) @
        [ComplexityEval, DependencyTable ?argv]"
    by blast
  then have run: "filter isPhase (snd (main runEnv ?argv)) =
     [Attach (''src'' @ [CHR 0x5C] @ ''a.h'') True, Parse (''src'' @ [CHR 0x5C] @ ''a.h''),
      Attach (''src'' @ [CHR 0x5C] @ ''b.cpp'') False,
      Attach (''src'' @ [CHR 0x5C] @ ''c.cs'') True, Parse (''src'' @ [CHR 0x5C] @ ''c.cs''),
      ComplexityEval, DependencyTable ?argv]"
    unfolding run_lists by (simp add: parserEvents_def runEnv_def sampleEnv_def bslash_def)
  from passes_once_after_parsing [of runEnv "[''analyzer'']"] rej
  have "filter isPhase (snd (main runEnv [''analyzer''])) = []" by blast
  with run_accepted(1,2) run_quiet ret run rej show ?thesis by blast
qed

text \<open>
  C2 as stated (each pass runs exactly once per run) fails on two runs. Without
  arguments \<open>main\<close> prints the usage text and returns 1. On \<^verbatim>\<open>src *.h *.cpp *.cs /m\<close>,
  when a collaborator throws after the first file has been parsed, the handler of
  \<open>main\<close> ends the run with status 1. In both runs neither pass has run.
\<close>

theorem passes_not_run_counterexample:
  "fst (main sampleEnv [''analyzer'']) = Returned 1 \<and>
   count_list (snd (main sampleEnv [''analyzer''])) ComplexityEval = 0 \<and>
   count_list (snd (main sampleEnv [''analyzer''])) (DependencyTable [''analyzer'']) = 0 \<and>
   fst (main thrEnv [''analyzer'', ''src'', ''*.h'', ''*.cpp'', ''*.cs'', ''/m'']) = Returned 1 \<and>
   filter isPhase (snd (main thrEnv [''analyzer'', ''src'', ''*.h'', ''*.cpp'', ''*.cs'', ''/m''])) =
     [Attach (''src'' @ [CHR 0x5C] @ ''a.h'') True, Parse (''src'' @ [CHR 0x5C] @ ''a.h'')] \<and>
   count_list (snd (main thrEnv [''analyzer'', ''src'', ''*.h'', ''*.cpp'', ''*.cs'', ''/m'']))
     ComplexityEval = 0 \<and>
   count_list (snd (main thrEnv [''analyzer'', ''src'', ''*.h'', ''*.cpp'', ''*.cs'', ''/m'']))
     (DependencyTable [''analyzer'', ''src'', ''*.h'', ''*.cpp'', ''*.cs'', ''/m'']) = 0"
  unfolding thr_main
  by (simp add: main_def CodeAnalysisExecutive_def sampleEnv_def ProcessCommandLine_def
      showUsage_def newExec_def bslash_def)

subsection \<open>C3: a file that cannot be opened\<close>

text \<open>
  C3: let \<open>f\<close> be a file of one of the three loops of \<open>processSourceCode\<close> whose
  attach fails. Then the call writes the warning \<^verbatim>\<open>could not open file\<close> followed
  by \<open>f\<close>, on a line of its own, to the results logger; the attach of \<open>f\<close> never
  succeeds and the call never parses \<open>f\<close>; every line-count entry that the call
  records belongs to a file whose attach succeeded, and the entry under the package name
  of \<open>f\<close> is untouched unless such a file has the same name; and every file of the
  three loops whose attach succeeds is parsed and gets its line-count entry, wherever it
  stands relative to \<open>f\<close>: the failure ends neither the loop nor the call.
\<close>

theorem unopened_file_is_skipped:
  assumes f: "f \<in> fst ` set (schedule (fileMap st))" and fail: "\<not> attach en f"
  shows "LogWrite Rslt (CHR 0x0A # ''  could not open file '' @ f @ [CHR 0x0A])
           \<in> set (since st (processSourceCode en sp st)) \<and>
         Attach f False \<in> set (since st (processSourceCode en sp st)) \<and>
         Attach f True \<notin> set (since st (processSourceCode en sp st)) \<and>
         Parse f \<notin> set (since st (processSourceCode en sp st)) \<and>
         (\<forall>p n. SetSloc p n \<in> set (since st (processSourceCode en sp st)) \<longrightarrow>
            (\<exists>g \<in> fst ` set (schedule (fileMap st)).
               attach en g \<and> p = getName en g \<and> n = currentLineCount en g)) \<and>
         ((\<forall>g \<in> fst ` set (schedule (fileMap st)).
             attach en g \<longrightarrow> getName en g \<noteq> getName en f) \<longrightarrow>
            slocMap (processSourceCode en sp st) (getName en f) = slocMap st (getName en f)) \<and>
         (\<forall>g \<in> fst ` set (schedule (fileMap st)). attach en g \<longrightarrow>
            Parse g \<in> set (since st (processSourceCode en sp st)) \<and>
            SetSloc (getName en g) (currentLineCount en g)
              \<in> set (since st (processSourceCode en sp st)))"
proof (intro conjI)
  let ?new = "since st (processSourceCode en sp st)"
  from f obtain l where fl: "(f, l) \<in> set (schedule (fileMap st))" by auto
  have "LogWrite Rslt (couldNotOpen f) \<in> set (core ?new)"
    by (rule core_events_intro [OF fl fileEvents_warning [OF fail]])
  then have "LogWrite Rslt (couldNotOpen f) \<in> set ?new"
    by (rule core_memD)
  then show "LogWrite Rslt (CHR 0x0A # ''  could not open file '' @ f @ [CHR 0x0A]) \<in> set ?new"
    by (simp add: couldNotOpen_def nl_def)
  have "Attach f False \<in> set (core ?new)"
    by (rule core_events_intro [OF fl]) (simp add: fileEvents_def fail)
  then show "Attach f False \<in> set ?new"
    by (rule core_memD)
  show "Attach f True \<notin> set ?new"
  proof
    assume "Attach f True \<in> set ?new"
    then have "Attach f True \<in> set (core ?new)" by (simp add: core_memI)
    from core_events_cases [OF this] fail show False
      by (auto simp: fileEvents_def split: if_splits)
  qed
  show "Parse f \<notin> set ?new"
  proof
    assume "Parse f \<in> set ?new"
    then have "Parse f \<in> set (core ?new)" by (simp add: core_memI)
    from core_events_cases [OF this] fail show False
      by (auto simp: fileEvents_Parse)
  qed
  show "\<forall>p n. SetSloc p n \<in> set ?new \<longrightarrow>
            (\<exists>g \<in> fst ` set (schedule (fileMap st)).
               attach en g \<and> p = getName en g \<and> n = currentLineCount en g)"
  proof (intro allI impI)
    fix p n
    assume "SetSloc p n \<in> set ?new"
    then have "SetSloc p n \<in> set (core ?new)" by (simp add: core_memI)
    from core_events_cases [OF this] obtain g l' where gl: "(g, l') \<in> set (schedule (fileMap st))"
        and ev: "SetSloc p n \<in> set (fileEvents en l' g)"
      by auto
    from gl have "g \<in> fst ` set (schedule (fileMap st))" by force
    with ev show "\<exists>g \<in> fst ` set (schedule (fileMap st)).
               attach en g \<and> p = getName en g \<and> n = currentLineCount en g"
      unfolding fileEvents_SetSloc by blast
  qed
  show "(\<forall>g \<in> fst ` set (schedule (fileMap st)).
             attach en g \<longrightarrow> getName en g \<noteq> getName en f) \<longrightarrow>
          slocMap (processSourceCode en sp st) (getName en f) = slocMap st (getName en f)"
    by (intro impI) (rule processSourceCode_slocMap_other)
  show "\<forall>g \<in> fst ` set (schedule (fileMap st)). attach en g \<longrightarrow>
            Parse g \<in> set ?new \<and> SetSloc (getName en g) (currentLineCount en g) \<in> set ?new"
  proof (intro ballI impI)
    fix g
    assume g: "g \<in> fst ` set (schedule (fileMap st))" and ok: "attach en g"
    from g obtain l' where gl: "(g, l') \<in> set (schedule (fileMap st))" by auto
    have "Parse g \<in> set (fileEvents en l' g)"
      "SetSloc (getName en g) (currentLineCount en g) \<in> set (fileEvents en l' g)"
      using ok by (simp_all add: fileEvents_Parse fileEvents_SetSloc)
    then have "Parse g \<in> set (core ?new) \<and>
        SetSloc (getName en g) (currentLineCount en g) \<in> set (core ?new)"
      using core_events_intro [OF gl] by blast
    then show "Parse g \<in> set ?new \<and> SetSloc (getName en g) (currentLineCount en g) \<in> set ?new"
      by (simp add: core_memD)
  qed
qed

text \<open>The table \<open>sampleMap\<close>, in which \<^verbatim>\<open>src\b.cpp\<close> cannot be opened.\<close>

theorem unopened_file_is_skipped_witness:
  "''src'' @ [CHR 0x5C] @ ''b.cpp'' \<in> fst ` set (schedule (fileMap ((newExec Cpp)\<lparr>fileMap := sampleMap\<rparr>))) \<and>
   \<not> attach sampleEnv (''src'' @ [CHR 0x5C] @ ''b.cpp'') \<and>
   LogWrite Rslt (CHR 0x0A # ''  could not open file src'' @ [CHR 0x5C] @ ''b.cpp'' @ [CHR 0x0A])
     \<in> set (since ((newExec Cpp)\<lparr>fileMap := sampleMap\<rparr>)
               (processSourceCode sampleEnv True ((newExec Cpp)\<lparr>fileMap := sampleMap\<rparr>))) \<and>
   Attach (''src'' @ [CHR 0x5C] @ ''b.cpp'') False
     \<in> set (since ((newExec Cpp)\<lparr>fileMap := sampleMap\<rparr>)
               (processSourceCode sampleEnv True ((newExec Cpp)\<lparr>fileMap := sampleMap\<rparr>))) \<and>
   Parse (''src'' @ [CHR 0x5C] @ ''b.cpp'')
     \<notin> set (since ((newExec Cpp)\<lparr>fileMap := sampleMap\<rparr>)
               (processSourceCode sampleEnv True ((newExec Cpp)\<lparr>fileMap := sampleMap\<rparr>))) \<and>
   Parse (''src'' @ [CHR 0x5C] @ ''c.cs'')
     \<in> set (since ((newExec Cpp)\<lparr>fileMap := sampleMap\<rparr>)
               (processSourceCode sampleEnv True ((newExec Cpp)\<lparr>fileMap := sampleMap\<rparr>))) \<and>
   SetSloc ''c.cs'' 18
     \<in> set (since ((newExec Cpp)\<lparr>fileMap := sampleMap\<rparr>)
               (processSourceCode sampleEnv True ((newExec Cpp)\<lparr>fileMap := sampleMap\<rparr>))) \<and>
   slocMap (processSourceCode sampleEnv True ((newExec Cpp)\<lparr>fileMap := sampleMap\<rparr>)) ''b.cpp'' = None"
proof -
  let ?b = "''src'' @ [CHR 0x5C] @ ''b.cpp''"
  let ?c = "''src'' @ [CHR 0x5C] @ ''c.cs''"
  let ?st = "(newExec Cpp)\<lparr>fileMap := sampleMap\<rparr>"
  let ?new = "since ?st (processSourceCode sampleEnv True ?st)"
  have f: "?b \<in> fst ` set (schedule (fileMap ?st))"
    by (simp add: sample_schedule bslash_def)
  have c: "?c \<in> fst ` set (schedule (fileMap ?st))"
    by (simp add: sample_schedule bslash_def)
  have fail: "\<not> attach sampleEnv ?b"
    by (simp add: sampleEnv_def bslash_def)
  have ok: "attach sampleEnv ?c"
    by (simp add: sampleEnv_def bslash_def)
  have others: "\<forall>g \<in> fst ` set (schedule (fileMap ?st)).
      attach sampleEnv g \<longrightarrow> getName sampleEnv g \<noteq> getName sampleEnv ?b"
    by (simp add: sample_schedule sampleEnv_def afterLast_def bslash_def)
  note t = unopened_file_is_skipped [OF f fail, of True]
  from t have c1: "LogWrite Rslt (CHR 0x0A # ''  could not open file '' @ ?b @ [CHR 0x0A]) \<in> set ?new"
    by blast
  then have c1': "LogWrite Rslt (CHR 0x0A # ''  could not open file src'' @ [CHR 0x5C] @ ''b.cpp'' @ [CHR 0x0A])
     \<in> set ?new" by simp
  from t have c0: "Attach ?b False \<in> set ?new" by blast
  from t have c2: "Parse ?b \<notin> set ?new" by blast
  from t c ok have c3: "Parse ?c \<in> set ?new" by blast
  from t c ok have "SetSloc (getName sampleEnv ?c) (currentLineCount sampleEnv ?c) \<in> set ?new" by blast
  then have c5: "SetSloc ''c.cs'' 18 \<in> set ?new"
    by (simp add: sampleEnv_def afterLast_def bslash_def)
  from t others have "slocMap (processSourceCode sampleEnv True ?st) (getName sampleEnv ?b) =
      slocMap ?st (getName sampleEnv ?b)" by blast
  then have c4: "slocMap (processSourceCode sampleEnv True ?st) ''b.cpp'' = None"
    by (simp add: sampleEnv_def afterLast_def bslash_def newExec_def)
  from f fail c1' c0 c2 c3 c5 c4 show ?thesis by (intro conjI)
qed

subsection \<open>C4: the parser cannot be constructed\<close>

text \<open>
  C4, as the code has it. When \<^verbatim>\<open>configure_.Build()\<close> gives no parser, the constructor
  throws; \<open>main\<close> constructs the executive before its \<^verbatim>\<open>try\<close> block, so the exception
  leaves \<open>main\<close>, the run is terminated without any event (no file is searched for,
  attached or parsed) and does not end with status 0. When the parser is built, the run
  always returns from \<open>main\<close>: with 0 when the command line is accepted and nothing throws
  inside the \<^verbatim>\<open>try\<close> block, whatever the attaches and the log file do; with 1 when
  \<open>ProcessCommandLine\<close> rejects the command line, and with 1 when a call inside the
  \<^verbatim>\<open>try\<close> block throws, after the events that came before the exception and those of
  the handler.
\<close>

theorem parser_construction_failure_is_fatal:
  "(\<not> parserBuilt en \<longrightarrow>
      CodeAnalysisExecutive en = Inl (''couldn'' @ [CHR 0x27] @ ''t create parser'') \<and>
      main en argv = (Terminated (''couldn'' @ [CHR 0x27] @ ''t create parser''), []) \<and>
      fst (main en argv) \<noteq> Returned 0) \<and>
   (parserBuilt en \<longrightarrow>
      fst (main en argv) =
        (if fst (ProcessCommandLine en argv (newExec (initialLanguage en))) \<and> \<not> mainRaises en argv
         then Returned 0 else Returned 1)) \<and>
   (parserBuilt en \<and> fst (ProcessCommandLine en argv (newExec (initialLanguage en))) \<and>
    mainThrows en argv = Some (k, what) \<and>
    k < length (blockEvents en argv (snd (ProcessCommandLine en argv (newExec (initialLanguage en))))) \<longrightarrow>
      snd (main en argv) =
        take k (blockEvents en argv (snd (ProcessCommandLine en argv (newExec (initialLanguage en))))) @
        [LogFlush Rslt, LogFlush Demo, LogFlush Dbug,
         Cout ([CHR 0x0A, CHR 0x0A] @ ''  caught exception in Executive::main: '' @ what @
               [CHR 0x0A, CHR 0x0A]),
         LogFlush Rslt, LogFlush Demo, LogFlush Dbug, LogStop Rslt, LogStop Demo, LogStop Dbug])"
proof (intro conjI impI)
  assume "\<not> parserBuilt en"
  then show "CodeAnalysisExecutive en = Inl (''couldn'' @ [CHR 0x27] @ ''t create parser'')"
    and "main en argv = (Terminated (''couldn'' @ [CHR 0x27] @ ''t create parser''), [])"
    and "fst (main en argv) \<noteq> Returned 0"
    by (simp_all add: main_terminated CodeAnalysisExecutive_def)
next
  assume "parserBuilt en"
  then show "fst (main en argv) =
        (if fst (ProcessCommandLine en argv (newExec (initialLanguage en))) \<and> \<not> mainRaises en argv
         then Returned 0 else Returned 1)"
    by (simp add: main_outcome)
next
  let ?st1 = "snd (ProcessCommandLine en argv (newExec (initialLanguage en)))"
  assume a: "parserBuilt en \<and> fst (ProcessCommandLine en argv (newExec (initialLanguage en))) \<and>
    mainThrows en argv = Some (k, what) \<and> k < length (blockEvents en argv ?st1)"
  have tr: "trace ?st1 = []"
    using a by (simp add: ProcessCommandLine_accepted_trace)
  from a have "main en argv = (Returned 1,
       trace (caught what (?st1\<lparr>trace := trace ?st1 @ take k (blockEvents en argv ?st1)\<rparr>)))"
    by (simp add: main_caught)
  then show "snd (main en argv) =
        take k (blockEvents en argv ?st1) @
        [LogFlush Rslt, LogFlush Demo, LogFlush Dbug,
         Cout ([CHR 0x0A, CHR 0x0A] @ ''  caught exception in Executive::main: '' @ what @
               [CHR 0x0A, CHR 0x0A]),
         LogFlush Rslt, LogFlush Demo, LogFlush Dbug, LogStop Rslt, LogStop Demo, LogStop Dbug]"
    by (simp add: tr caught_def flushLogger_def stopLogger_def nl_def)
qed

text \<open>
  A run without a parser, the run on \<^verbatim>\<open>src *.h *.cpp *.cs /m\<close> in which nothing
  throws, and the same run when a collaborator throws after 16 events of the block.
\<close>

theorem parser_construction_failure_is_fatal_witness:
  "\<not> parserBuilt (sampleEnv\<lparr>parserBuilt := False\<rparr>) \<and>
   main (sampleEnv\<lparr>parserBuilt := False\<rparr>) [''analyzer'', ''src'', ''*.h''] =
     (Terminated (''couldn'' @ [CHR 0x27] @ ''t create parser''), []) \<and>
   parserBuilt runEnv \<and>
   fst (main runEnv [''analyzer'', ''src'', ''*.h'', ''*.cpp'', ''*.cs'', ''/m'']) = Returned 0 \<and>
   parserBuilt thrEnv \<and>
   fst (ProcessCommandLine thrEnv [''analyzer'', ''src'', ''*.h'', ''*.cpp'', ''*.cs'', ''/m'']
      (newExec (initialLanguage thrEnv))) \<and>
   mainThrows thrEnv [''analyzer'', ''src'', ''*.h'', ''*.cpp'', ''*.cs'', ''/m''] =
     Some (16, ''bad allocation'') \<and>
   16 < length (blockEvents thrEnv [''analyzer'', ''src'', ''*.h'', ''*.cpp'', ''*.cs'', ''/m'']
     (snd (ProcessCommandLine thrEnv [''analyzer'', ''src'', ''*.h'', ''*.cpp'', ''*.cs'', ''/m'']
       (newExec (initialLanguage thrEnv))))) \<and>
   snd (main thrEnv [''analyzer'', ''src'', ''*.h'', ''*.cpp'', ''*.cs'', ''/m'']) =
     [LogAttachCout Rslt, LogAttachCout Demo, LogAttachCout Dbug,
      LogWrite Rslt (CHR 0x0A # ''     Path: '' @ [CHR 0x22] @ ''src'' @ [CHR 0x22, CHR 0x0A] @
                     ''     Args: *.h, *.cpp, *.cs, /m''),
      LogFlush Rslt, LogWrite Rslt [CHR 0x0A],
      Cout (CHR 0x0D # ''     Processing file: '' @ ''src'' @ [CHR 0x5C] @ ''a.h'' @
            replicate 73 (CHR '' '')),
      SetPackage ''a.h'', Attach (''src'' @ [CHR 0x5C] @ ''a.h'') True,
      LogFlush Rslt, LogFlush Demo, LogFlush Dbug, SetLanguage Cpp,
      SetCurrentPath (''src'' @ [CHR 0x5C] @ ''a.h''), Parse (''src'' @ [CHR 0x5C] @ ''a.h''),
      SetSloc ''a.h'' 17,
      LogFlush Rslt, LogFlush Demo, LogFlush Dbug,
      Cout ([CHR 0x0A, CHR 0x0A] @ ''  caught exception in Executive::main: bad allocation'' @
            [CHR 0x0A, CHR 0x0A]),
      LogFlush Rslt, LogFlush Demo, LogFlush Dbug, LogStop Rslt, LogStop Demo, LogStop Dbug]"
proof -
  let ?A = "[''analyzer'', ''src'', ''*.h'', ''*.cpp'', ''*.cs'', ''/m'']"
  have nb: "\<not> parserBuilt (sampleEnv\<lparr>parserBuilt := False\<rparr>)" by simp
  with parser_construction_failure_is_fatal [of "sampleEnv\<lparr>parserBuilt := False\<rparr>" "[''analyzer'', ''src'', ''*.h'']"]
  have t: "main (sampleEnv\<lparr>parserBuilt := False\<rparr>) [''analyzer'', ''src'', ''*.h''] =
     (Terminated (''couldn'' @ [CHR 0x27] @ ''t create parser''), [])" by blast
  from parser_construction_failure_is_fatal [of runEnv ?A] run_accepted(1,2) run_quiet
  have r: "fst (main runEnv ?A) = Returned 0" by simp
  from parser_construction_failure_is_fatal [of thrEnv ?A 16 "''bad allocation''"]
    thr_accepted(1,2,4) thr_cut(1)
  have "snd (main thrEnv ?A) =
        take 16 (blockEvents thrEnv ?A (snd (ProcessCommandLine thrEnv ?A (newExec (initialLanguage thrEnv))))) @
        [LogFlush Rslt, LogFlush Demo, LogFlush Dbug,
         Cout ([CHR 0x0A, CHR 0x0A] @ ''  caught exception in Executive::main: '' @ ''bad allocation'' @
               [CHR 0x0A, CHR 0x0A]),
         LogFlush Rslt, LogFlush Demo, LogFlush Dbug, LogStop Rslt, LogStop Demo, LogStop Dbug]"
    by blast
  then have c: "snd (main thrEnv ?A) =
     [LogAttachCout Rslt, LogAttachCout Demo, LogAttachCout Dbug,
      LogWrite Rslt (CHR 0x0A # ''     Path: '' @ [CHR 0x22] @ ''src'' @ [CHR 0x22, CHR 0x0A] @
                     ''     Args: *.h, *.cpp, *.cs, /m''),
      LogFlush Rslt, LogWrite Rslt [CHR 0x0A],
      Cout (CHR 0x0D # ''     Processing file: '' @ ''src'' @ [CHR 0x5C] @ ''a.h'' @
            replicate 73 (CHR '' '')),
      SetPackage ''a.h'', Attach (''src'' @ [CHR 0x5C] @ ''a.h'') True,
      LogFlush Rslt, LogFlush Demo, LogFlush Dbug, SetLanguage Cpp,
      SetCurrentPath (''src'' @ [CHR 0x5C] @ ''a.h''), Parse (''src'' @ [CHR 0x5C] @ ''a.h''),
      SetSloc ''a.h'' 17,
      LogFlush Rslt, LogFlush Demo, LogFlush Dbug,
      Cout ([CHR 0x0A, CHR 0x0A] @ ''  caught exception in Executive::main: bad allocation'' @
            [CHR 0x0A, CHR 0x0A]),
      LogFlush Rslt, LogFlush Demo, LogFlush Dbug, LogStop Rslt, LogStop Demo, LogStop Dbug]"
    unfolding thr_cut(2) by (simp add: nl_def dq_def cr_def bslash_def)
  from nb t run_accepted(1) r thr_accepted(1,2,4) thr_cut(1) c show ?thesis
    by (intro conjI)
qed

text \<open>
  C4 as stated (the failed construction of the parser is the only error that is fatal to
  the whole run) fails on the run on \<^verbatim>\<open>src *.h *.cpp *.cs /m\<close> in which a collaborator
  throws after the first file has been parsed: the parser was built and the command line
  is accepted, yet the handler of \<open>main\<close> ends the run with status 1; the two other
  files are not attached and neither pass runs.
\<close>

theorem exception_in_main_counterexample:
  "parserBuilt thrEnv \<and>
   fst (ProcessCommandLine thrEnv [''analyzer'', ''src'', ''*.h'', ''*.cpp'', ''*.cs'', ''/m'']
      (newExec (initialLanguage thrEnv))) \<and>
   fst (main thrEnv [''analyzer'', ''src'', ''*.h'', ''*.cpp'', ''*.cs'', ''/m'']) = Returned 1 \<and>
   cppImplemFiles (discovered thrEnv [''analyzer'', ''src'', ''*.h'', ''*.cpp'', ''*.cs'', ''/m'']) =
     [''src'' @ [CHR 0x5C] @ ''b.cpp''] \<and>
   csharpFiles (discovered thrEnv [''analyzer'', ''src'', ''*.h'', ''*.cpp'', ''*.cs'', ''/m'']) =
     [''src'' @ [CHR 0x5C] @ ''c.cs''] \<and>
   filter isPhase (snd (main thrEnv [''analyzer'', ''src'', ''*.h'', ''*.cpp'', ''*.cs'', ''/m''])) =
     [Attach (''src'' @ [CHR 0x5C] @ ''a.h'') True, Parse (''src'' @ [CHR 0x5C] @ ''a.h'')]"
proof -
  let ?A = "[''analyzer'', ''src'', ''*.h'', ''*.cpp'', ''*.cs'', ''/m'']"
  have d: "discovered thrEnv ?A =
     [(''*.h'', [''src'' @ [bslash] @ ''a.h'']), (''*.cpp'', [''src'' @ [bslash] @ ''b.cpp'']),
      (''*.cs'', [''src'' @ [bslash] @ ''c.cs''])]"
    by (simp add: discovered_def getSourceFiles_def Let_def thrEnv_def runEnv_def sampleEnv_def
      mgr_search_def AnalFileMgr_def mgr_dir_def mgr_file_def afterLast_def bslash_def
      ProcessCommandLine_def newExec_def recordArg_def cstrAt_def)
  have l: "cppImplemFiles (discovered thrEnv ?A) = [''src'' @ [CHR 0x5C] @ ''b.cpp'']"
    "csharpFiles (discovered thrEnv ?A) = [''src'' @ [CHR 0x5C] @ ''c.cs'']"
    unfolding d by (simp_all add: cppImplemFiles_def csharpFiles_def contains_def bslash_def)
  have m: "fst (main thrEnv ?A) = Returned 1"
    "filter isPhase (snd (main thrEnv ?A)) =
     [Attach (''src'' @ [CHR 0x5C] @ ''a.h'') True, Parse (''src'' @ [CHR 0x5C] @ ''a.h'')]"
    unfolding thr_main by (simp_all add: bslash_def)
  from thr_accepted(1,2) m l show ?thesis by (intro conjI)
qed

subsection \<open>C5: the per-file context\<close>

text \<open>
  C5, as the code has it. One turn of a loop of \<open>processSourceCode\<close> for a file \<open>g\<close>
  whose attach succeeds, from any state \<open>s\<close>, assigns the package name (the name of
  \<open>g\<close>), the language (\<open>Cpp\<close> in the first two loops, \<open>CSharp\<close> in the third) and the
  current path (the path of \<open>g\<close>) once each, parses \<open>g\<close>, and then stores one line count
  under that package name: the three fields and the table hold these values after the
  turn. The core events of the whole call are the events of the turns, one turn for each
  place of the schedule, and a name that only files with one line count bear has that
  count in the table after the call. On a file table as \<open>AnalFileMgr\<close> fills it, the
  language of a turn is \<open>Cpp\<close> for a \<^verbatim>\<open>.h\<close> or \<^verbatim>\<open>.cpp\<close> file and \<open>CSharp\<close> for a
  \<^verbatim>\<open>.cs\<close> file, which is also what \<open>setLanguage\<close> assigns for the file; and such a file
  has as many turns as it has places in the table, so exactly one when the search has
  reported it once.
\<close>

theorem per_file_context_set_once:
  assumes inv: "fileMap_inv en (fileMap st)"
  shows "(attach en g \<longrightarrow>
            package (headerBody en sp g s) = getName en g \<and>
            language (headerBody en sp g s) = Cpp \<and>
            currentPath (headerBody en sp g s) = g \<and>
            slocMap (headerBody en sp g s) = (slocMap s)(getName en g \<mapsto> currentLineCount en g) \<and>
            core (since s (headerBody en sp g s)) =
              [SetPackage (getName en g), Attach g True, SetLanguage Cpp, SetCurrentPath g,
               Parse g, SetSloc (getName en g) (currentLineCount en g)] \<and>
            package (implemBody en sp g s) = getName en g \<and>
            language (implemBody en sp g s) = Cpp \<and>
            currentPath (implemBody en sp g s) = g \<and>
            slocMap (implemBody en sp g s) = (slocMap s)(getName en g \<mapsto> currentLineCount en g) \<and>
            core (since s (implemBody en sp g s)) =
              [SetPackage (getName en g), Attach g True, SetLanguage Cpp, SetCurrentPath g,
               Parse g, SetSloc (getName en g) (currentLineCount en g)] \<and>
            package (csharpBody en sp g s) = getName en g \<and>
            language (csharpBody en sp g s) = CSharp \<and>
            currentPath (csharpBody en sp g s) = g \<and>
            slocMap (csharpBody en sp g s) = (slocMap s)(getName en g \<mapsto> currentLineCount en g) \<and>
            core (since s (csharpBody en sp g s)) =
              [SetPackage (getName en g), Attach g True, SetLanguage CSharp, SetCurrentPath g,
               Parse g, SetSloc (getName en g) (currentLineCount en g)]) \<and>
         core (since st (processSourceCode en sp st)) =
           concat (map (\<lambda>(f, l).
             if attach en f
             then [SetPackage (getName en f), Attach f True, SetLanguage l, SetCurrentPath f,
                   Parse f, SetSloc (getName en f) (currentLineCount en f)]
             else [SetPackage (getName en f), Attach f False,
                   LogWrite Rslt (CHR 0x0A # ''  could not open file '' @ f @ [CHR 0x0A])])
             (schedule (fileMap st))) @
           [LogWrite Rslt (CHR 0x0D # ''  '' @ CHR '' '' # replicate 76 (CHR '' ''))] \<and>
         (\<forall>f \<in> fst ` set (schedule (fileMap st)).
            attach en f \<and>
            (\<forall>h \<in> fst ` set (schedule (fileMap st)).
               attach en h \<and> getName en h = getName en f \<longrightarrow>
               currentLineCount en h = currentLineCount en f) \<longrightarrow>
            slocMap (processSourceCode en sp st) (getName en f) = Some (currentLineCount en f)) \<and>
         (\<forall>(f, l) \<in> set (schedule (fileMap st)).
            (getExt en f = ''h'' \<or> getExt en f = ''cpp'' \<longrightarrow>
               l = Cpp \<and> language (setLanguage en f st) = Cpp) \<and>
            (getExt en f = ''cs'' \<longrightarrow>
               l = CSharp \<and> language (setLanguage en f st) = CSharp)) \<and>
         (\<forall>f. getExt en f = ''h'' \<or> getExt en f = ''cpp'' \<or> getExt en f = ''cs'' \<longrightarrow>
            count_list (map fst (schedule (fileMap st))) f =
              count_list (concat (map snd (fileMap st))) f)"
proof (intro conjI)
  show "attach en g \<longrightarrow>
            package (headerBody en sp g s) = getName en g \<and>
            language (headerBody en sp g s) = Cpp \<and>
            currentPath (headerBody en sp g s) = g \<and>
            slocMap (headerBody en sp g s) = (slocMap s)(getName en g \<mapsto> currentLineCount en g) \<and>
            core (since s (headerBody en sp g s)) =
              [SetPackage (getName en g), Attach g True, SetLanguage Cpp, SetCurrentPath g,
               Parse g, SetSloc (getName en g) (currentLineCount en g)] \<and>
            package (implemBody en sp g s) = getName en g \<and>
            language (implemBody en sp g s) = Cpp \<and>
            currentPath (implemBody en sp g s) = g \<and>
            slocMap (implemBody en sp g s) = (slocMap s)(getName en g \<mapsto> currentLineCount en g) \<and>
            core (since s (implemBody en sp g s)) =
              [SetPackage (getName en g), Attach g True, SetLanguage Cpp, SetCurrentPath g,
               Parse g, SetSloc (getName en g) (currentLineCount en g)] \<and>
            package (csharpBody en sp g s) = getName en g \<and>
            language (csharpBody en sp g s) = CSharp \<and>
            currentPath (csharpBody en sp g s) = g \<and>
            slocMap (csharpBody en sp g s) = (slocMap s)(getName en g \<mapsto> currentLineCount en g) \<and>
            core (since s (csharpBody en sp g s)) =
              [SetPackage (getName en g), Attach g True, SetLanguage CSharp, SetCurrentPath g,
               Parse g, SetSloc (getName en g) (currentLineCount en g)]"
    by (simp add: headerBody_data implemBody_data csharpBody_data turn_core fileEvents_def)
  show "core (since st (processSourceCode en sp st)) =
           concat (map (\<lambda>(f, l).
             if attach en f
             then [SetPackage (getName en f), Attach f True, SetLanguage l, SetCurrentPath f,
                   Parse f, SetSloc (getName en f) (currentLineCount en f)]
             else [SetPackage (getName en f), Attach f False,
                   LogWrite Rslt (CHR 0x0A # ''  could not open file '' @ f @ [CHR 0x0A])])
             (schedule (fileMap st))) @
           [LogWrite Rslt (CHR 0x0D # ''  '' @ CHR '' '' # replicate 76 (CHR '' ''))]"
    unfolding schedule_events_explicit [symmetric] last_write [symmetric]
    by (rule processSourceCode_core)
  show "\<forall>f \<in> fst ` set (schedule (fileMap st)).
            attach en f \<and>
            (\<forall>h \<in> fst ` set (schedule (fileMap st)).
               attach en h \<and> getName en h = getName en f \<longrightarrow>
               currentLineCount en h = currentLineCount en f) \<longrightarrow>
            slocMap (processSourceCode en sp st) (getName en f) = Some (currentLineCount en f)"
  proof (intro ballI impI)
    fix f
    assume f: "f \<in> fst ` set (schedule (fileMap st))"
      and a: "attach en f \<and>
            (\<forall>h \<in> fst ` set (schedule (fileMap st)).
               attach en h \<and> getName en h = getName en f \<longrightarrow>
               currentLineCount en h = currentLineCount en f)"
    from a have same: "\<forall>h \<in> fst ` set (schedule (fileMap st)).
               attach en h \<and> getName en h = getName en f \<longrightarrow>
               currentLineCount en h = currentLineCount en f" by (rule conjunct2)
    from a have ok: "attach en f" by (rule conjunct1)
    show "slocMap (processSourceCode en sp st) (getName en f) = Some (currentLineCount en f)"
      by (rule processSourceCode_slocMap_written [OF same f ok refl])
  qed
  show "\<forall>(f, l) \<in> set (schedule (fileMap st)).
            (getExt en f = ''h'' \<or> getExt en f = ''cpp'' \<longrightarrow>
               l = Cpp \<and> language (setLanguage en f st) = Cpp) \<and>
            (getExt en f = ''cs'' \<longrightarrow>
               l = CSharp \<and> language (setLanguage en f st) = CSharp)"
  proof (intro ballI, clarify, intro conjI impI)
    fix f l
    assume fl: "(f, l) \<in> set (schedule (fileMap st))"
    note sl = schedule_language [OF fl]
    show "l = Cpp" if "getExt en f = ''h'' \<or> getExt en f = ''cpp''"
      using that sl header_ext(2) [OF inv] implem_ext(2) [OF inv] by blast
    show "language (setLanguage en f st) = Cpp" if "getExt en f = ''h'' \<or> getExt en f = ''cpp''"
      using that by (auto simp: setLanguage_def)
    show "l = CSharp" if "getExt en f = ''cs''"
      using that sl csharp_ext [OF inv] by blast
    show "language (setLanguage en f st) = CSharp" if "getExt en f = ''cs''"
      using that by (simp add: setLanguage_def)
  qed
  show "\<forall>f. getExt en f = ''h'' \<or> getExt en f = ''cpp'' \<or> getExt en f = ''cs'' \<longrightarrow>
            count_list (map fst (schedule (fileMap st))) f =
              count_list (concat (map snd (fileMap st))) f"
  proof (intro allI impI)
    fix f
    assume "getExt en f = ''h'' \<or> getExt en f = ''cpp'' \<or> getExt en f = ''cs''"
    then consider (h) "getExt en f = ''h''" | (cpp) "getExt en f = ''cpp''" | (cs) "getExt en f = ''cs''"
      by blast
    then show "count_list (map fst (schedule (fileMap st))) f =
              count_list (concat (map snd (fileMap st))) f"
    proof cases
      case h
      have "count_list (cppHeaderFiles (fileMap st)) f = count_list (concat (map snd (fileMap st))) f"
        unfolding cppHeaderFiles_def by (rule count_selected [OF inv]) (simp add: h)
      with header_ext [OF inv h] show ?thesis
        by (simp add: schedule_count count_list_0)
    next
      case cpp
      have "count_list (cppImplemFiles (fileMap st)) f = count_list (concat (map snd (fileMap st))) f"
        unfolding cppImplemFiles_def by (rule count_selected [OF inv]) (simp add: cpp)
      with implem_ext [OF inv cpp] show ?thesis
        by (simp add: schedule_count count_list_0)
    next
      case cs
      have "count_list (csharpFiles (fileMap st)) f = count_list (concat (map snd (fileMap st))) f"
        unfolding csharpFiles_def by (rule count_selected [OF inv]) (simp add: cs)
      with csharp_ext [OF inv cs] show ?thesis
        by (simp add: schedule_count count_list_0)
    qed
  qed
qed

text \<open>
  The table \<open>sampleMap\<close>: the turn of the first loop for \<^verbatim>\<open>src\a.h\<close> and the turn of
  the third loop for \<^verbatim>\<open>src\c.cs\<close> from a new executive, and the whole call.
\<close>

theorem per_file_context_set_once_witness:
  "fileMap_inv sampleEnv (fileMap ((newExec Cpp)\<lparr>fileMap := sampleMap\<rparr>)) \<and>
   attach sampleEnv (''src'' @ [CHR 0x5C] @ ''a.h'') \<and>
   package (headerBody sampleEnv True (''src'' @ [CHR 0x5C] @ ''a.h'') (newExec CSharp)) = ''a.h'' \<and>
   language (headerBody sampleEnv True (''src'' @ [CHR 0x5C] @ ''a.h'') (newExec CSharp)) = Cpp \<and>
   currentPath (headerBody sampleEnv True (''src'' @ [CHR 0x5C] @ ''a.h'') (newExec CSharp)) =
     ''src'' @ [CHR 0x5C] @ ''a.h'' \<and>
   slocMap (headerBody sampleEnv True (''src'' @ [CHR 0x5C] @ ''a.h'') (newExec CSharp)) =
     [''a.h'' \<mapsto> 17] \<and>
   attach sampleEnv (''src'' @ [CHR 0x5C] @ ''c.cs'') \<and>
   package (csharpBody sampleEnv True (''src'' @ [CHR 0x5C] @ ''c.cs'') (newExec Cpp)) = ''c.cs'' \<and>
   language (csharpBody sampleEnv True (''src'' @ [CHR 0x5C] @ ''c.cs'') (newExec Cpp)) = CSharp \<and>
   currentPath (csharpBody sampleEnv True (''src'' @ [CHR 0x5C] @ ''c.cs'') (newExec Cpp)) =
     ''src'' @ [CHR 0x5C] @ ''c.cs'' \<and>
   slocMap (csharpBody sampleEnv True (''src'' @ [CHR 0x5C] @ ''c.cs'') (newExec Cpp)) =
     [''c.cs'' \<mapsto> 18] \<and>
   core (since ((newExec Cpp)\<lparr>fileMap := sampleMap\<rparr>)
       (processSourceCode sampleEnv True ((newExec Cpp)\<lparr>fileMap := sampleMap\<rparr>))) =
     [SetPackage ''d.hpp'', Attach (''src'' @ [CHR 0x5C] @ ''d.hpp'') True, SetLanguage Cpp,
      SetCurrentPath (''src'' @ [CHR 0x5C] @ ''d.hpp''), Parse (''src'' @ [CHR 0x5C] @ ''d.hpp''),
      SetSloc ''d.hpp'' 19,
      SetPackage ''a.h'', Attach (''src'' @ [CHR 0x5C] @ ''a.h'') True, SetLanguage Cpp,
      SetCurrentPath (''src'' @ [CHR 0x5C] @ ''a.h''), Parse (''src'' @ [CHR 0x5C] @ ''a.h''),
      SetSloc ''a.h'' 17,
      SetPackage ''b.cpp'', Attach (''src'' @ [CHR 0x5C] @ ''b.cpp'') False,
      LogWrite Rslt (CHR 0x0A # ''  could not open file src'' @ [CHR 0x5C] @ ''b.cpp'' @ [CHR 0x0A]),
      SetPackage ''c.cs'', Attach (''src'' @ [CHR 0x5C] @ ''c.cs'') True, SetLanguage CSharp,
      SetCurrentPath (''src'' @ [CHR 0x5C] @ ''c.cs''), Parse (''src'' @ [CHR 0x5C] @ ''c.cs''),
      SetSloc ''c.cs'' 18,
      LogWrite Rslt (CHR 0x0D # ''  '' @ CHR '' '' # replicate 76 (CHR '' ''))] \<and>
   slocMap (processSourceCode sampleEnv True ((newExec Cpp)\<lparr>fileMap := sampleMap\<rparr>)) ''a.h'' = Some 17 \<and>
   slocMap (processSourceCode sampleEnv True ((newExec Cpp)\<lparr>fileMap := sampleMap\<rparr>)) ''c.cs'' = Some 18 \<and>
   language (setLanguage sampleEnv (''src'' @ [CHR 0x5C] @ ''c.cs'') ((newExec Cpp)\<lparr>fileMap := sampleMap\<rparr>)) = CSharp \<and>
   count_list (map fst (schedule (fileMap ((newExec Cpp)\<lparr>fileMap := sampleMap\<rparr>))))
     (''src'' @ [CHR 0x5C] @ ''a.h'') = 1"
proof -
  let ?a = "''src'' @ [CHR 0x5C] @ ''a.h''"
  let ?c = "''src'' @ [CHR 0x5C] @ ''c.cs''"
  let ?st = "(newExec Cpp)\<lparr>fileMap := sampleMap\<rparr>"
  have inv: "fileMap_inv sampleEnv (fileMap ?st)"
    by (simp add: sample_inv)
  have oka: "attach sampleEnv ?a" and okc: "attach sampleEnv ?c"
    by (simp_all add: sampleEnv_def bslash_def)
  have sch: "schedule (fileMap ?st) =
     [(''src'' @ [CHR 0x5C] @ ''d.hpp'', Cpp), (?a, Cpp),
      (''src'' @ [CHR 0x5C] @ ''b.cpp'', Cpp), (?c, CSharp)]"
    by (simp add: sample_schedule bslash_def)
  note ta = per_file_context_set_once [OF inv, where g = ?a and sp = True and s = "newExec CSharp"]
  note tc = per_file_context_set_once [OF inv, where g = ?c and sp = True and s = "newExec Cpp"]
  from ta oka have a:
    "package (headerBody sampleEnv True ?a (newExec CSharp)) = getName sampleEnv ?a"
    "language (headerBody sampleEnv True ?a (newExec CSharp)) = Cpp"
    "currentPath (headerBody sampleEnv True ?a (newExec CSharp)) = ?a"
    "slocMap (headerBody sampleEnv True ?a (newExec CSharp)) =
       (slocMap (newExec CSharp))(getName sampleEnv ?a \<mapsto> currentLineCount sampleEnv ?a)"
    by blast+
  from tc okc have c:
    "package (csharpBody sampleEnv True ?c (newExec Cpp)) = getName sampleEnv ?c"
    "language (csharpBody sampleEnv True ?c (newExec Cpp)) = CSharp"
    "currentPath (csharpBody sampleEnv True ?c (newExec Cpp)) = ?c"
    "slocMap (csharpBody sampleEnv True ?c (newExec Cpp)) =
       (slocMap (newExec Cpp))(getName sampleEnv ?c \<mapsto> currentLineCount sampleEnv ?c)"
    by blast+
  have names: "getName sampleEnv ?a = ''a.h''" "getName sampleEnv ?c = ''c.cs''"
    "currentLineCount sampleEnv ?a = 17" "currentLineCount sampleEnv ?c = 18"
    "slocMap (newExec CSharp) = Map.empty" "slocMap (newExec Cpp) = Map.empty"
    by (simp_all add: sampleEnv_def afterLast_def bslash_def newExec_def)
  from ta have "core (since ?st (processSourceCode sampleEnv True ?st)) =
           concat (map (\<lambda>(f, l).
             if attach sampleEnv f
             then [SetPackage (getName sampleEnv f), Attach f True, SetLanguage l, SetCurrentPath f,
                   Parse f, SetSloc (getName sampleEnv f) (currentLineCount sampleEnv f)]
             else [SetPackage (getName sampleEnv f), Attach f False,
                   LogWrite Rslt (CHR 0x0A # ''  could not open file '' @ f @ [CHR 0x0A])])
             (schedule (fileMap ?st))) @
           [LogWrite Rslt (CHR 0x0D # ''  '' @ CHR '' '' # replicate 76 (CHR '' ''))]"
    by (rule conjunct1 [OF conjunct2])
  then have run: "core (since ?st (processSourceCode sampleEnv True ?st)) =
     [SetPackage ''d.hpp'', Attach (''src'' @ [CHR 0x5C] @ ''d.hpp'') True, SetLanguage Cpp,
      SetCurrentPath (''src'' @ [CHR 0x5C] @ ''d.hpp''), Parse (''src'' @ [CHR 0x5C] @ ''d.hpp''),
      SetSloc ''d.hpp'' 19,
      SetPackage ''a.h'', Attach (''src'' @ [CHR 0x5C] @ ''a.h'') True, SetLanguage Cpp,
      SetCurrentPath (''src'' @ [CHR 0x5C] @ ''a.h''), Parse (''src'' @ [CHR 0x5C] @ ''a.h''),
      SetSloc ''a.h'' 17,
      SetPackage ''b.cpp'', Attach (''src'' @ [CHR 0x5C] @ ''b.cpp'') False,
      LogWrite Rslt (CHR 0x0A # ''  could not open file src'' @ [CHR 0x5C] @ ''b.cpp'' @ [CHR 0x0A]),
      SetPackage ''c.cs'', Attach (''src'' @ [CHR 0x5C] @ ''c.cs'') True, SetLanguage CSharp,
      SetCurrentPath (''src'' @ [CHR 0x5C] @ ''c.cs''), Parse (''src'' @ [CHR 0x5C] @ ''c.cs''),
      SetSloc ''c.cs'' 18,
      LogWrite Rslt (CHR 0x0D # ''  '' @ CHR '' '' # replicate 76 (CHR '' ''))]"
    unfolding sch by (simp add: sampleEnv_def afterLast_def bslash_def)
  have ina: "?a \<in> fst ` set (schedule (fileMap ?st))" and inc: "?c \<in> fst ` set (schedule (fileMap ?st))"
    unfolding sch by simp_all
  have una: "\<forall>h \<in> fst ` set (schedule (fileMap ?st)).
       attach sampleEnv h \<and> getName sampleEnv h = getName sampleEnv ?a \<longrightarrow>
       currentLineCount sampleEnv h = currentLineCount sampleEnv ?a"
    and unc: "\<forall>h \<in> fst ` set (schedule (fileMap ?st)).
       attach sampleEnv h \<and> getName sampleEnv h = getName sampleEnv ?c \<longrightarrow>
       currentLineCount sampleEnv h = currentLineCount sampleEnv ?c"
    unfolding sch by (simp_all add: sampleEnv_def afterLast_def bslash_def)
  from ta ina oka una
  have "slocMap (processSourceCode sampleEnv True ?st) (getName sampleEnv ?a) =
      Some (currentLineCount sampleEnv ?a)" by blast
  then have sa: "slocMap (processSourceCode sampleEnv True ?st) ''a.h'' = Some 17"
    by (simp only: names)
  from ta inc okc unc
  have "slocMap (processSourceCode sampleEnv True ?st) (getName sampleEnv ?c) =
      Some (currentLineCount sampleEnv ?c)" by blast
  then have sc: "slocMap (processSourceCode sampleEnv True ?st) ''c.cs'' = Some 18"
    by (simp only: names)
  have extc: "getExt sampleEnv ?c = ''cs''" and exta: "getExt sampleEnv ?a = ''h''"
    by (simp_all add: sampleEnv_def afterLast_def)
  have "(?c, CSharp) \<in> set (schedule (fileMap ?st))" unfolding sch by simp
  with ta extc have lc: "language (setLanguage sampleEnv ?c ?st) = CSharp" by blast
  from ta exta have "count_list (map fst (schedule (fileMap ?st))) ?a =
      count_list (concat (map snd (fileMap ?st))) ?a" by blast
  then have cnt: "count_list (map fst (schedule (fileMap ?st))) ?a = 1"
    by (simp add: sampleMap_def bslash_def)
  from inv oka a [unfolded names] okc c [unfolded names] run sa sc lc cnt
  show ?thesis by (intro conjI)
qed

text \<open>
  C5 as stated (the context is mutated exactly once for a file, and exactly one line
  count is recorded for it) fails when the search reports a file more than once. With
  \<open>dupEnv\<close> each of the two patterns of \<^verbatim>\<open>src *.h *.*\<close> matches \<^verbatim>\<open>a.h\<close>;
  \<open>getSourceFiles\<close> stores the file twice under \<^verbatim>\<open>*.h\<close>, and \<open>processSourceCode\<close>
  attaches and parses it twice, assigns the three fields twice and records its line
  count twice.
\<close>

theorem file_processed_twice_counterexample:
  "fst (ProcessCommandLine dupEnv [''analyzer'', ''src'', ''*.h'', ''*.*''] (newExec Cpp)) \<and>
   fileMap (getSourceFiles dupEnv
     (snd (ProcessCommandLine dupEnv [''analyzer'', ''src'', ''*.h'', ''*.*''] (newExec Cpp)))) =
     [(''*.h'', [''src'' @ [CHR 0x5C] @ ''a.h'', ''src'' @ [CHR 0x5C] @ ''a.h''])] \<and>
   attach dupEnv (''src'' @ [CHR 0x5C] @ ''a.h'') \<and>
   core (since
     (getSourceFiles dupEnv
        (snd (ProcessCommandLine dupEnv [''analyzer'', ''src'', ''*.h'', ''*.*''] (newExec Cpp))))
     (processSourceCode dupEnv True
        (getSourceFiles dupEnv
           (snd (ProcessCommandLine dupEnv [''analyzer'', ''src'', ''*.h'', ''*.*''] (newExec Cpp)))))) =
     [SetPackage ''a.h'', Attach (''src'' @ [CHR 0x5C] @ ''a.h'') True, SetLanguage Cpp,
      SetCurrentPath (''src'' @ [CHR 0x5C] @ ''a.h''), Parse (''src'' @ [CHR 0x5C] @ ''a.h''),
      SetSloc ''a.h'' 17,
      SetPackage ''a.h'', Attach (''src'' @ [CHR 0x5C] @ ''a.h'') True, SetLanguage Cpp,
      SetCurrentPath (''src'' @ [CHR 0x5C] @ ''a.h''), Parse (''src'' @ [CHR 0x5C] @ ''a.h''),
      SetSloc ''a.h'' 17,
      LogWrite Rslt (CHR 0x0D # ''  '' @ CHR '' '' # replicate 76 (CHR '' ''))]"
proof -
  let ?st = "getSourceFiles dupEnv
     (snd (ProcessCommandLine dupEnv [''analyzer'', ''src'', ''*.h'', ''*.*''] (newExec Cpp)))"
  have acc: "fst (ProcessCommandLine dupEnv [''analyzer'', ''src'', ''*.h'', ''*.*''] (newExec Cpp))"
    by (simp add: dupEnv_def sampleEnv_def ProcessCommandLine_def newExec_def recordArg_def cstrAt_def)
  have fm: "fileMap ?st = [(''*.h'', [''src'' @ [CHR 0x5C] @ ''a.h'', ''src'' @ [CHR 0x5C] @ ''a.h''])]"
    by (simp add: getSourceFiles_def Let_def dupEnv_def sampleEnv_def mgr_search_def
      AnalFileMgr_def mgr_dir_def mgr_file_def afterLast_def bslash_def
      ProcessCommandLine_def newExec_def recordArg_def cstrAt_def)
  have ok: "attach dupEnv (''src'' @ [CHR 0x5C] @ ''a.h'')"
    by (simp add: dupEnv_def sampleEnv_def bslash_def)
  have sch: "schedule (fileMap ?st) =
     [(''src'' @ [CHR 0x5C] @ ''a.h'', Cpp), (''src'' @ [CHR 0x5C] @ ''a.h'', Cpp)]"
    unfolding fm
    by (simp add: schedule_def cppHeaderFiles_def cppImplemFiles_def csharpFiles_def contains_def)
  have run: "core (since ?st (processSourceCode dupEnv True ?st)) =
     [SetPackage ''a.h'', Attach (''src'' @ [CHR 0x5C] @ ''a.h'') True, SetLanguage Cpp,
      SetCurrentPath (''src'' @ [CHR 0x5C] @ ''a.h''), Parse (''src'' @ [CHR 0x5C] @ ''a.h''),
      SetSloc ''a.h'' 17,
      SetPackage ''a.h'', Attach (''src'' @ [CHR 0x5C] @ ''a.h'') True, SetLanguage Cpp,
      SetCurrentPath (''src'' @ [CHR 0x5C] @ ''a.h''), Parse (''src'' @ [CHR 0x5C] @ ''a.h''),
      SetSloc ''a.h'' 17,
      LogWrite Rslt (CHR 0x0D # ''  '' @ CHR '' '' # replicate 76 (CHR '' ''))]"
    unfolding processSourceCode_core sch last_write
    by (simp add: fileEvents_def dupEnv_def sampleEnv_def afterLast_def bslash_def)
  from acc fm ok run show ?thesis by (intro conjI)
qed

subsection \<open>C6: the line-count query\<close>

text \<open>
  C6, as the code has it: \<open>fileSLOCs\<close> returns the recorded count of the queried package
  name, or 0 when the name has no entry. The call changes nothing but, possibly, the
  line-count table: when the queried name has an entry, the state after the call is the
  state before it; in any case every recorded entry keeps its count, and the count
  reported for every package name is the same after the call as before.
\<close>

theorem fileSLOCs_keeps_counts:
  "fst (fileSLOCs f st) = reported (slocMap st) f \<and>
   snd (fileSLOCs f st) = st\<lparr>slocMap := slocMap (snd (fileSLOCs f st))\<rparr> \<and>
   (f \<in> dom (slocMap st) \<longrightarrow> snd (fileSLOCs f st) = st) \<and>
   (\<forall>g n. slocMap st g = Some n \<longrightarrow> slocMap (snd (fileSLOCs f st)) g = Some n) \<and>
   reported (slocMap (snd (fileSLOCs f st))) = reported (slocMap st)"
  by (cases "slocMap st f") (auto simp: fileSLOCs_def reported_def fun_eq_iff)

theorem fileSLOCs_keeps_counts_witness:
  "fst (fileSLOCs ''a.h'' ((newExec Cpp)\<lparr>slocMap := [''a.h'' \<mapsto> 17]\<rparr>)) = 17 \<and>
   snd (fileSLOCs ''a.h'' ((newExec Cpp)\<lparr>slocMap := [''a.h'' \<mapsto> 17]\<rparr>)) =
     (newExec Cpp)\<lparr>slocMap := [''a.h'' \<mapsto> 17]\<rparr> \<and>
   fst (fileSLOCs ''b.h'' ((newExec Cpp)\<lparr>slocMap := [''a.h'' \<mapsto> 17]\<rparr>)) = 0 \<and>
   slocMap (snd (fileSLOCs ''b.h'' ((newExec Cpp)\<lparr>slocMap := [''a.h'' \<mapsto> 17]\<rparr>))) ''a.h'' = Some 17"
  using fileSLOCs_keeps_counts [of "''a.h''" "(newExec Cpp)\<lparr>slocMap := [''a.h'' \<mapsto> 17]\<rparr>"]
    fileSLOCs_keeps_counts [of "''b.h''" "(newExec Cpp)\<lparr>slocMap := [''a.h'' \<mapsto> 17]\<rparr>"]
  by (simp add: reported_def)

text \<open>
  C6 as stated (the table is unchanged after every query, also for a name without an
  entry) fails on a new executive: its table has no entry for \<^verbatim>\<open>a.h\<close>, and after
  the query for \<^verbatim>\<open>a.h\<close> it has one.
\<close>

theorem fileSLOCs_counterexample:
  "slocMap (newExec Cpp) ''a.h'' = None \<and>
   slocMap (snd (fileSLOCs ''a.h'' (newExec Cpp))) ''a.h'' = Some 0"
  by (simp add: fileSLOCs_def newExec_def)

subsection \<open>C7: what the file manager stores and counts\<close>

text \<open>
  C7: for every sequence \<open>ns\<close> of \<open>dir\<close> and \<open>file\<close> callbacks of a search, started on a
  manager that was constructed on the table \<open>fm\<close>, the files under every key \<open>k\<close> are
  afterwards the files that were there, followed by the paths of the notified files whose
  key is \<open>k\<close>, in the order of the callbacks; the path of a notified file is the current
  directory, a backslash and the file name, and its key is \<^verbatim>\<open>*.\<close> followed by the
  extension of that path. \<open>numFiles()\<close> is the number of files the manager has stored, so
  the table has grown by that many files, and \<open>numDirs()\<close> is the number of \<open>dir\<close>
  callbacks; \<open>getSourceFiles\<close> copies both counts into the executive.
\<close>

theorem search_stores_files:
  "filesUnder (mgr_fileMap (mgr_search en ns (AnalFileMgr p fm))) k =
     filesUnder fm k @ map snd (filter (\<lambda>kf. fst kf = k) (notified en [] ns)) \<and>
   mgr_numFiles (mgr_search en ns (AnalFileMgr p fm)) = length (notified en [] ns) \<and>
   length (concat (map snd (mgr_fileMap (mgr_search en ns (AnalFileMgr p fm))))) =
     length (concat (map snd fm)) + mgr_numFiles (mgr_search en ns (AnalFileMgr p fm)) \<and>
   mgr_numDirs (mgr_search en ns (AnalFileMgr p fm)) = length (filter isDirNote ns) \<and>
   numFiles (getSourceFiles en st) = length (notified en [] (searchCalls en (path st) (patterns st))) \<and>
   numDirs (getSourceFiles en st) = length (filter isDirNote (searchCalls en (path st) (patterns st)))"
  by (simp add: mgr_search_files mgr_search_numFiles mgr_search_numDirs mgr_search_stored
      length_notified AnalFileMgr_def getSourceFiles_def Let_def del: length_concat)

theorem search_stores_files_witness:
  "filesUnder (mgr_fileMap (mgr_search sampleEnv
       [DirNote ''src'', FileNote ''a.h'', DirNote ''lib'', FileNote ''b.h'', FileNote ''c.cs'']
       (AnalFileMgr ''src'' []))) ''*.h'' = [''src'' @ [bslash] @ ''a.h'', ''lib'' @ [bslash] @ ''b.h''] \<and>
   mgr_numFiles (mgr_search sampleEnv
       [DirNote ''src'', FileNote ''a.h'', DirNote ''lib'', FileNote ''b.h'', FileNote ''c.cs'']
       (AnalFileMgr ''src'' [])) = 3 \<and>
   mgr_numDirs (mgr_search sampleEnv
       [DirNote ''src'', FileNote ''a.h'', DirNote ''lib'', FileNote ''b.h'', FileNote ''c.cs'']
       (AnalFileMgr ''src'' [])) = 2"
  using search_stores_files [of sampleEnv
       "[DirNote ''src'', FileNote ''a.h'', DirNote ''lib'', FileNote ''b.h'', FileNote ''c.cs'']"
       "''src''" "[]" "''*.h''"]
  by (simp add: sampleEnv_def afterLast_def filesUnder_def bslash_def)

subsection \<open>C8: the size column of the metrics table\<close>

text \<open>
  C8: \<open>displayMetricsLine\<close> writes one line for a node to the results logger: after the
  line break and one blank, the file name cut to 23 characters, the scope kind, the scope
  name cut to 33 characters, the start line, the size and the complexity, each filled
  with blanks on the left to the width of its column (25, 12, 35, 8, 8 and 8). The size
  is the decimal numeral, made of digits and without a leading zero, of the node's end
  line minus its start line plus one, computed on \<^verbatim>\<open>size_t\<close>. For a node whose start
  line is not after its end line this is the number of lines from the start line to the
  end line. When the scope kind and the three numbers fit their columns, the line is
  made of cells of these widths, and the size is the fifth.
\<close>

theorem metrics_line_size_column:
  fixes pNode :: "('w::len) word ASTNode"
  shows "since st (displayMetricsLine f pNode st) =
           [LogWrite Rslt
             ([CHR 0x0A, CHR '' ''] @
              replicate (25 - length (take 23 f)) (CHR '' '') @ take 23 f @
              replicate (12 - length (node_type pNode)) (CHR '' '') @ node_type pNode @
              replicate (35 - length (take 33 (node_name pNode))) (CHR '' '') @
                take 33 (node_name pNode) @
              replicate (8 - length (decimal (unat (startLineCount pNode)))) (CHR '' '') @
                decimal (unat (startLineCount pNode)) @
              replicate (8 - length (decimal (unat (endLineCount pNode - startLineCount pNode + 1))))
                  (CHR '' '') @
                decimal (unat (endLineCount pNode - startLineCount pNode + 1)) @
              replicate (8 - length (decimal (unat (complexity pNode)))) (CHR '' '') @
                decimal (unat (complexity pNode)))] \<and>
         decimal (unat (endLineCount pNode - startLineCount pNode + 1)) \<noteq> [] \<and>
         set (decimal (unat (endLineCount pNode - startLineCount pNode + 1))) \<subseteq> set ''0123456789'' \<and>
         (0 < unat (endLineCount pNode - startLineCount pNode + 1) \<longrightarrow>
            hd (decimal (unat (endLineCount pNode - startLineCount pNode + 1))) \<noteq> CHR ''0'') \<and>
         readDecimal (decimal (unat (endLineCount pNode - startLineCount pNode + 1))) =
           unat (endLineCount pNode - startLineCount pNode + 1) \<and>
         (startLineCount pNode \<le> endLineCount pNode \<and>
          unat (endLineCount pNode) - unat (startLineCount pNode) + 1 < 2 ^ LENGTH('w) \<longrightarrow>
            unat (endLineCount pNode - startLineCount pNode + 1) =
              unat (endLineCount pNode) - unat (startLineCount pNode) + 1) \<and>
         (length (node_type pNode) \<le> 12 \<and>
          unat (startLineCount pNode) < 10 ^ 8 \<and>
          unat (endLineCount pNode - startLineCount pNode + 1) < 10 ^ 8 \<and>
          unat (complexity pNode) < 10 ^ 8 \<longrightarrow>
            cells [25, 12, 35, 8, 8, 8] (drop 2 (metricsLine f pNode)) =
              [replicate (25 - length (take 23 f)) (CHR '' '') @ take 23 f,
               replicate (12 - length (node_type pNode)) (CHR '' '') @ node_type pNode,
               replicate (35 - length (take 33 (node_name pNode))) (CHR '' '') @
                 take 33 (node_name pNode),
               replicate (8 - length (decimal (unat (startLineCount pNode)))) (CHR '' '') @
                 decimal (unat (startLineCount pNode)),
               replicate (8 - length (decimal (unat (endLineCount pNode - startLineCount pNode + 1))))
                   (CHR '' '') @
                 decimal (unat (endLineCount pNode - startLineCount pNode + 1)),
               replicate (8 - length (decimal (unat (complexity pNode)))) (CHR '' '') @
                 decimal (unat (complexity pNode))])"
proof (intro conjI impI)
  show "since st (displayMetricsLine f pNode st) =
           [LogWrite Rslt
             ([CHR 0x0A, CHR '' ''] @
              replicate (25 - length (take 23 f)) (CHR '' '') @ take 23 f @
              replicate (12 - length (node_type pNode)) (CHR '' '') @ node_type pNode @
              replicate (35 - length (take 33 (node_name pNode))) (CHR '' '') @
                take 33 (node_name pNode) @
              replicate (8 - length (decimal (unat (startLineCount pNode)))) (CHR '' '') @
                decimal (unat (startLineCount pNode)) @
              replicate (8 - length (decimal (unat (endLineCount pNode - startLineCount pNode + 1))))
                  (CHR '' '') @
                decimal (unat (endLineCount pNode - startLineCount pNode + 1)) @
              replicate (8 - length (decimal (unat (complexity pNode)))) (CHR '' '') @
                decimal (unat (complexity pNode)))]"
    by (simp add: since_def displayMetricsLine_def metricsLine_def setwRight_def trunc_def nl_def)
  show "decimal (unat (endLineCount pNode - startLineCount pNode + 1)) \<noteq> []"
    by (rule decimal_nonempty)
  show "set (decimal (unat (endLineCount pNode - startLineCount pNode + 1))) \<subseteq> set ''0123456789''"
    by (rule decimal_digits)
  show "readDecimal (decimal (unat (endLineCount pNode - startLineCount pNode + 1))) =
           unat (endLineCount pNode - startLineCount pNode + 1)"
    by (rule readDecimal_decimal)
next
  assume "0 < unat (endLineCount pNode - startLineCount pNode + 1)"
  then show "hd (decimal (unat (endLineCount pNode - startLineCount pNode + 1))) \<noteq> CHR ''0''"
    by (rule decimal_leading)
next
  assume "startLineCount pNode \<le> endLineCount pNode \<and>
          unat (endLineCount pNode) - unat (startLineCount pNode) + 1 < 2 ^ LENGTH('w)"
  then show "unat (endLineCount pNode - startLineCount pNode + 1) =
              unat (endLineCount pNode) - unat (startLineCount pNode) + 1"
    using unat_size by blast
next
  assume fit: "length (node_type pNode) \<le> 12 \<and>
          unat (startLineCount pNode) < 10 ^ 8 \<and>
          unat (endLineCount pNode - startLineCount pNode + 1) < 10 ^ 8 \<and>
          unat (complexity pNode) < 10 ^ 8"
  from metricsLine_cells [OF fit, of f]
  show "cells [25, 12, 35, 8, 8, 8] (drop 2 (metricsLine f pNode)) =
              [replicate (25 - length (take 23 f)) (CHR '' '') @ take 23 f,
               replicate (12 - length (node_type pNode)) (CHR '' '') @ node_type pNode,
               replicate (35 - length (take 33 (node_name pNode))) (CHR '' '') @
                 take 33 (node_name pNode),
               replicate (8 - length (decimal (unat (startLineCount pNode)))) (CHR '' '') @
                 decimal (unat (startLineCount pNode)),
               replicate (8 - length (decimal (unat (endLineCount pNode - startLineCount pNode + 1))))
                   (CHR '' '') @
                 decimal (unat (endLineCount pNode - startLineCount pNode + 1)),
               replicate (8 - length (decimal (unat (complexity pNode)))) (CHR '' '') @
                 decimal (unat (complexity pNode))]"
    by (simp only: setwRight_def trunc_def)
qed

text \<open>The line for \<open>main\<close> of \<^verbatim>\<open>Executive.cpp\<close>, lines 838 to 868, on a 64-bit platform.\<close>

theorem metrics_line_size_column_witness:
  "since (newExec Cpp)
     (displayMetricsLine ''Executive.cpp''
        \<lparr>node_type = ''function'', node_name = ''main'', startLineCount = 838 :: 64 word,
         endLineCount = 868, complexity = 3\<rparr> (newExec Cpp)) =
     [LogWrite Rslt (CHR 0x0A # ''             Executive.cpp    function                               main     838      31       3'')] \<and>
   (0 :: nat) < unat ((868 :: 64 word) - 838 + 1) \<and>
   hd (decimal (unat ((868 :: 64 word) - 838 + 1))) = CHR ''3'' \<and>
   (838 :: 64 word) \<le> 868 \<and>
   unat ((868 :: 64 word) - 838 + 1) = 31 \<and>
   cells [25, 12, 35, 8, 8, 8]
     (drop 2 (metricsLine ''Executive.cpp''
        \<lparr>node_type = ''function'', node_name = ''main'', startLineCount = 838 :: 64 word,
         endLineCount = 868, complexity = 3\<rparr>)) =
     [''            Executive.cpp'', ''    function'', ''                               main'', ''     838'', ''      31'', ''       3'']"
proof -
  let ?n = "\<lparr>node_type = ''function'', node_name = ''main'', startLineCount = 838 :: 64 word,
         endLineCount = 868, complexity = 3\<rparr>"
  have p: "length (node_type ?n) \<le> 12 \<and> unat (startLineCount ?n) < 10 ^ 8 \<and>
    unat (endLineCount ?n - startLineCount ?n + 1) < 10 ^ 8 \<and> unat (complexity ?n) < 10 ^ 8"
    by simp
  have o: "startLineCount ?n \<le> endLineCount ?n \<and>
    unat (endLineCount ?n) - unat (startLineCount ?n) + 1 < 2 ^ LENGTH(64)"
    by simp
  have le: "(838 :: 64 word) \<le> 868" by simp
  note t = metrics_line_size_column [of "newExec Cpp" "''Executive.cpp''" ?n]
  from t o have u: "unat ((868 :: 64 word) - 838 + 1) = 31"
    by simp
  then have pos: "(0 :: nat) < unat ((868 :: 64 word) - 838 + 1)" by simp
  have hd3: "hd (decimal (unat ((868 :: 64 word) - 838 + 1))) = CHR ''3''"
    by (simp add: u sample_decimals)
  have v: "decimal (unat (startLineCount ?n)) = ''838''"
    "decimal (unat (endLineCount ?n - startLineCount ?n + 1)) = ''31''"
    "decimal (unat (complexity ?n)) = ''3''"
    by (simp_all add: sample_decimals)
  from t have "since (newExec Cpp) (displayMetricsLine ''Executive.cpp'' ?n (newExec Cpp)) =
           [LogWrite Rslt
             ([CHR 0x0A, CHR '' ''] @
              replicate (25 - length (take 23 ''Executive.cpp'')) (CHR '' '') @ take 23 ''Executive.cpp'' @
              replicate (12 - length (node_type ?n)) (CHR '' '') @ node_type ?n @
              replicate (35 - length (take 33 (node_name ?n))) (CHR '' '') @
                take 33 (node_name ?n) @
              replicate (8 - length (decimal (unat (startLineCount ?n)))) (CHR '' '') @
                decimal (unat (startLineCount ?n)) @
              replicate (8 - length (decimal (unat (endLineCount ?n - startLineCount ?n + 1))))
                  (CHR '' '') @
                decimal (unat (endLineCount ?n - startLineCount ?n + 1)) @
              replicate (8 - length (decimal (unat (complexity ?n)))) (CHR '' '') @
                decimal (unat (complexity ?n)))]"
    by (rule conjunct1)
  then have L: "since (newExec Cpp) (displayMetricsLine ''Executive.cpp'' ?n (newExec Cpp)) =
     [LogWrite Rslt (CHR 0x0A # ''             Executive.cpp    function                               main     838      31       3'')]"
    unfolding v by (simp add: blanks)
  from t p have "cells [25, 12, 35, 8, 8, 8] (drop 2 (metricsLine ''Executive.cpp'' ?n)) =
              [replicate (25 - length (take 23 ''Executive.cpp'')) (CHR '' '') @ take 23 ''Executive.cpp'',
               replicate (12 - length (node_type ?n)) (CHR '' '') @ node_type ?n,
               replicate (35 - length (take 33 (node_name ?n))) (CHR '' '') @
                 take 33 (node_name ?n),
               replicate (8 - length (decimal (unat (startLineCount ?n)))) (CHR '' '') @
                 decimal (unat (startLineCount ?n)),
               replicate (8 - length (decimal (unat (endLineCount ?n - startLineCount ?n + 1))))
                   (CHR '' '') @
                 decimal (unat (endLineCount ?n - startLineCount ?n + 1)),
               replicate (8 - length (decimal (unat (complexity ?n)))) (CHR '' '') @
                 decimal (unat (complexity ?n))]"
    by blast
  then have E: "cells [25, 12, 35, 8, 8, 8] (drop 2 (metricsLine ''Executive.cpp'' ?n)) =
     [''            Executive.cpp'', ''    function'', ''                               main'', ''     838'', ''      31'', ''       3'']"
    unfolding v by (simp add: blanks)
  from L pos hd3 le u E show ?thesis by (intro conjI)
qed

subsection \<open>C9: selection of files by substring of the pattern key\<close>

text \<open>
  C9: the three selectors test the pattern key for a substring, not for equality. The
  header files are the files of all entries whose key contains \<^verbatim>\<open>*.h\<close>, the
  implementation files those whose key contains \<^verbatim>\<open>*.cpp\<close>, the C# files those whose
  key contains \<^verbatim>\<open>*.cs\<close>, each in the order of the table; and \<open>processSourceCode\<close>
  treats exactly these files as C++ declaration files, as C++ implementation files and
  as C# files, in this order.
\<close>

theorem selection_by_substring:
  "cppHeaderFiles fm = concat (map snd (filter (\<lambda>item. sublist ''*.h'' (fst item)) fm)) \<and>
   cppImplemFiles fm = concat (map snd (filter (\<lambda>item. sublist ''*.cpp'' (fst item)) fm)) \<and>
   csharpFiles fm = concat (map snd (filter (\<lambda>item. sublist ''*.cs'' (fst item)) fm)) \<and>
   core (since st (processSourceCode en sp (st\<lparr>fileMap := fm\<rparr>))) =
     concat (map (fileEvents en Cpp)
       (concat (map snd (filter (\<lambda>item. sublist ''*.h'' (fst item)) fm)))) @
     concat (map (fileEvents en Cpp)
       (concat (map snd (filter (\<lambda>item. sublist ''*.cpp'' (fst item)) fm)))) @
     concat (map (fileEvents en CSharp)
       (concat (map snd (filter (\<lambda>item. sublist ''*.cs'' (fst item)) fm)))) @
     [LogWrite Rslt (cr # ''  '' @ setwLeft 77 '' '')]"
proof -
  have h: "cppHeaderFiles fm = concat (map snd (filter (\<lambda>item. sublist ''*.h'' (fst item)) fm))"
    unfolding cppHeaderFiles_def by (rule collectFiles_sublist)
  have c: "cppImplemFiles fm = concat (map snd (filter (\<lambda>item. sublist ''*.cpp'' (fst item)) fm))"
    unfolding cppImplemFiles_def by (rule collectFiles_sublist)
  have s: "csharpFiles fm = concat (map snd (filter (\<lambda>item. sublist ''*.cs'' (fst item)) fm))"
    unfolding csharpFiles_def by (rule collectFiles_sublist)
  have "since st (processSourceCode en sp (st\<lparr>fileMap := fm\<rparr>)) =
        since (st\<lparr>fileMap := fm\<rparr>) (processSourceCode en sp (st\<lparr>fileMap := fm\<rparr>))"
    by (simp add: since_def)
  then have "core (since st (processSourceCode en sp (st\<lparr>fileMap := fm\<rparr>))) =
     concat (map (\<lambda>(f, l). fileEvents en l f) (schedule fm)) @
     [LogWrite Rslt (cr # ''  '' @ setwLeft 77 '' '')]"
    by (simp add: processSourceCode_core)
  then show ?thesis
    unfolding schedule_events h [symmetric] c [symmetric] s [symmetric] using h c s by simp
qed

text \<open>The keys \<^verbatim>\<open>*.hpp\<close> and \<^verbatim>\<open>*.html\<close> are selected as header files.\<close>

theorem selection_by_substring_witness:
  "cppHeaderFiles [(''*.hpp'', [''a.hpp'']), (''*.cs'', [''b.cs'']), (''*.html'', [''c.html'']),
                   (''*.cpp'', [''d.cpp'']), (''*.h'', [''e.h''])] = [''a.hpp'', ''c.html'', ''e.h''] \<and>
   cppImplemFiles [(''*.hpp'', [''a.hpp'']), (''*.cs'', [''b.cs'']), (''*.html'', [''c.html'']),
                   (''*.cpp'', [''d.cpp'']), (''*.h'', [''e.h''])] = [''d.cpp''] \<and>
   csharpFiles [(''*.hpp'', [''a.hpp'']), (''*.cs'', [''b.cs'']), (''*.html'', [''c.html'']),
                   (''*.cpp'', [''d.cpp'']), (''*.h'', [''e.h''])] = [''b.cs'']"
  using selection_by_substring [of "[(''*.hpp'', [''a.hpp'']), (''*.cs'', [''b.cs'']), (''*.html'', [''c.html'']),
                   (''*.cpp'', [''d.cpp'']), (''*.h'', [''e.h''])]"]
  by (simp add: sublist_code)

subsection \<open>C10: the result of ProcessCommandLine\<close>

text \<open>
  C10, as the code has it. \<open>ProcessCommandLine\<close> returns false exactly when fewer than
  two arguments are given, or a call inside its \<^verbatim>\<open>try\<close> block throws, or the path
  resolved from the first argument does not exist, or the executive holds no pattern
  after the loop: it held none before the call and no argument after the path is a
  pattern. When it returns true, the path is the resolved first argument, and the
  arguments after the path have been appended in command-line order: those that begin
  with \<^verbatim>\<open>/\<close> to the options, each as its second character (the terminating NUL for
  the argument \<^verbatim>\<open>/\<close>), the others to the patterns, and nothing has been printed.
  When \<^verbatim>\<open>Directory::exists\<close> throws, the path has been assigned and the handler
  prints the error with the message of the exception. On a new executive, when nothing
  throws, the call returns false exactly in the three cases that C10 states.
\<close>

theorem ProcessCommandLine_result:
  "fst (ProcessCommandLine en argv st) =
     (\<not> (length argv < 2 \<or> cmdLineRaises en argv \<or>
         \<not> dirExists en (getFullFileSpec en (argv ! 1)) \<or>
         (patterns st = [] \<and> filter (\<lambda>a. \<not> isOption a) (drop 2 argv) = []))) \<and>
   (fst (ProcessCommandLine en argv st) \<longrightarrow>
      path (snd (ProcessCommandLine en argv st)) = getFullFileSpec en (argv ! 1) \<and>
      options (snd (ProcessCommandLine en argv st)) =
        options st @ map (\<lambda>a. if 1 < length a then a ! 1 else CHR 0x00)
                      (filter isOption (drop 2 argv)) \<and>
      patterns (snd (ProcessCommandLine en argv st)) =
        patterns st @ filter (\<lambda>a. \<not> isOption a) (drop 2 argv) \<and>
      trace (snd (ProcessCommandLine en argv st)) = trace st) \<and>
   (\<not> length argv < 2 \<and> cmdLineThrows en (FullFileSpec (argv ! 1)) = None \<and>
    cmdLineThrows en (DirExists (getFullFileSpec en (argv ! 1))) = Some what \<longrightarrow>
      path (snd (ProcessCommandLine en argv st)) = getFullFileSpec en (argv ! 1) \<and>
      since st (snd (ProcessCommandLine en argv st)) =
        [Cout ([CHR 0x0A, CHR 0x0A] @ ''  command line argument parsing error:''),
         Cout (CHR 0x0A # ''  '' @ what @ [CHR 0x0A, CHR 0x0A])])"
proof -
  have handler: "\<not> length argv < 2 \<and> cmdLineThrows en (FullFileSpec (argv ! 1)) = None \<and>
    cmdLineThrows en (DirExists (getFullFileSpec en (argv ! 1))) = Some what \<longrightarrow>
      path (snd (ProcessCommandLine en argv st)) = getFullFileSpec en (argv ! 1) \<and>
      since st (snd (ProcessCommandLine en argv st)) =
        [Cout ([CHR 0x0A, CHR 0x0A] @ ''  command line argument parsing error:''),
         Cout (CHR 0x0A # ''  '' @ what @ [CHR 0x0A, CHR 0x0A])]"
    by (simp add: ProcessCommandLine_def Let_def parsingError_def since_def nl_def del: One_nat_def)
  have quiet: "fst (ProcessCommandLine en argv st) \<longrightarrow>
      trace (snd (ProcessCommandLine en argv st)) = trace st"
    by (simp add: ProcessCommandLine_accepted_trace)
  have result: "fst (ProcessCommandLine en argv st) =
     (\<not> (length argv < 2 \<or> cmdLineRaises en argv \<or>
         \<not> dirExists en (getFullFileSpec en (argv ! 1)) \<or>
         (patterns st = [] \<and> filter (\<lambda>a. \<not> isOption a) (drop 2 argv) = []))) \<and>
   (fst (ProcessCommandLine en argv st) \<longrightarrow>
      path (snd (ProcessCommandLine en argv st)) = getFullFileSpec en (argv ! 1) \<and>
      options (snd (ProcessCommandLine en argv st)) =
        options st @ map (\<lambda>a. if 1 < length a then a ! 1 else CHR 0x00)
                      (filter isOption (drop 2 argv)) \<and>
      patterns (snd (ProcessCommandLine en argv st)) =
        patterns st @ filter (\<lambda>a. \<not> isOption a) (drop 2 argv))"
  proof (cases "length argv < 2")
    case True
    then show ?thesis by (simp add: ProcessCommandLine_def)
  next
    case False
    then have long: "2 \<le> length argv" by simp
    let ?p = "getFullFileSpec en (argv ! 1)"
    let ?st1 = "st\<lparr>path := ?p\<rparr>"
    show ?thesis
    proof (cases "cmdLineThrows en (FullFileSpec (argv ! 1))")
      case (Some what)
      with False show ?thesis
        by (simp add: ProcessCommandLine_def cmdLineRaises_def)
    next
      case q1: None
      show ?thesis
      proof (cases "cmdLineThrows en (DirExists ?p)")
        case (Some what)
        with False q1 show ?thesis
          by (simp add: ProcessCommandLine_def cmdLineRaises_def)
      next
        case q2: None
        show ?thesis
        proof (cases "dirExists en ?p")
          case False
          with \<open>\<not> length argv < 2\<close> q1 q2 show ?thesis
            by (simp add: ProcessCommandLine_def)
        next
          case there: True
          show ?thesis
          proof (cases "list_ex (\<lambda>i. cmdLineThrows en (PushBack i) \<noteq> None) [2..<length argv]")
            case True
            then have "\<exists>j. 2 \<le> j \<and> j < 2 + length (drop 2 argv) \<and> cmdLineThrows en (PushBack j) \<noteq> None"
              using push_raises [OF long] by blast
            from recordArgs_Inl [OF this, of ?st1] obtain what st' where
              "recordArgs en 2 (drop 2 argv) ?st1 = Inl (what, st')" by blast
            with False q1 q2 there True show ?thesis
              by (simp add: ProcessCommandLine_def cmdLineRaises_def del: One_nat_def)
          next
            case quiet: False
            then have "\<forall>j. 2 \<le> j \<and> j < 2 + length (drop 2 argv) \<longrightarrow> cmdLineThrows en (PushBack j) = None"
              using push_raises [OF long] by blast
            from recordArgs_Inr [OF this, of ?st1]
            have r: "recordArgs en 2 (drop 2 argv) ?st1 = Inr (fold recordArg (drop 2 argv) ?st1)" .
            from False q1 q2 there quiet show ?thesis
              by (simp add: ProcessCommandLine_def cmdLineRaises_def r recordArg_fold Let_def del: One_nat_def)
          qed
        qed
      qed
    qed
  qed
  from result quiet handler show ?thesis by blast
qed

text \<open>
  A command line with patterns and options, one without a pattern, one with a path that
  does not exist, one without arguments, and one for which \<^verbatim>\<open>Directory::exists\<close>
  throws.
\<close>

theorem ProcessCommandLine_result_witness:
  "fst (ProcessCommandLine sampleEnv [''analyzer'', ''src'', ''*.h'', ''/m'', ''*.cpp'', ''/'', ''/fx''] (newExec Cpp)) \<and>
   path (snd (ProcessCommandLine sampleEnv [''analyzer'', ''src'', ''*.h'', ''/m'', ''*.cpp'', ''/'', ''/fx''] (newExec Cpp)))
     = ''src'' \<and>
   options (snd (ProcessCommandLine sampleEnv [''analyzer'', ''src'', ''*.h'', ''/m'', ''*.cpp'', ''/'', ''/fx''] (newExec Cpp)))
     = [CHR ''m'', CHR 0x00, CHR ''f''] \<and>
   patterns (snd (ProcessCommandLine sampleEnv [''analyzer'', ''src'', ''*.h'', ''/m'', ''*.cpp'', ''/'', ''/fx''] (newExec Cpp)))
     = [''*.h'', ''*.cpp''] \<and>
   trace (snd (ProcessCommandLine sampleEnv [''analyzer'', ''src'', ''*.h'', ''/m'', ''*.cpp'', ''/'', ''/fx''] (newExec Cpp)))
     = [] \<and>
   \<not> fst (ProcessCommandLine sampleEnv [''analyzer'', ''src'', ''/m''] (newExec Cpp)) \<and>
   \<not> fst (ProcessCommandLine sampleEnv [''analyzer'', ''nowhere'', ''*.h''] (newExec Cpp)) \<and>
   \<not> fst (ProcessCommandLine sampleEnv [''analyzer''] (newExec Cpp)) \<and>
   \<not> fst (ProcessCommandLine
       deniedEnv
       [''analyzer'', ''src'', ''*.h''] (newExec Cpp)) \<and>
   since (newExec Cpp) (snd (ProcessCommandLine
       deniedEnv
       [''analyzer'', ''src'', ''*.h''] (newExec Cpp))) =
     [Cout ([CHR 0x0A, CHR 0x0A] @ ''  command line argument parsing error:''),
      Cout (CHR 0x0A # ''  access denied'' @ [CHR 0x0A, CHR 0x0A])]"
  using ProcessCommandLine_result [of sampleEnv "[''analyzer'', ''src'', ''*.h'', ''/m'', ''*.cpp'', ''/'', ''/fx'']" "newExec Cpp"]
    ProcessCommandLine_result [of sampleEnv "[''analyzer'', ''src'', ''/m'']" "newExec Cpp"]
    ProcessCommandLine_result [of sampleEnv "[''analyzer'', ''nowhere'', ''*.h'']" "newExec Cpp"]
    ProcessCommandLine_result [of sampleEnv "[''analyzer'']" "newExec Cpp"]
    ProcessCommandLine_result [of deniedEnv
       "[''analyzer'', ''src'', ''*.h'']" "newExec Cpp" "''access denied''"]
  by (simp add: deniedEnv_def sampleEnv_def isOption_def cmdLineRaises_def newExec_def list_ex_iff)

text \<open>
  C10 as stated fails on two calls. An executive that holds a pattern already returns
  true for a command line with no pattern after the path. And a call whose first
  \<^verbatim>\<open>push_back\<close> throws returns false although two arguments are given, the path
  exists and a pattern follows it.
\<close>

theorem ProcessCommandLine_counterexample:
  "fst (ProcessCommandLine sampleEnv [''analyzer'', ''src'', ''/m'']
         ((newExec Cpp)\<lparr>patterns := [''*.h'']\<rparr>)) \<and>
   isOption ''/m'' \<and>
   \<not> fst (ProcessCommandLine badAllocEnv [''analyzer'', ''src'', ''*.h''] (newExec Cpp)) \<and>
   \<not> length [''analyzer'', ''src'', ''*.h''] < 2 \<and>
   dirExists badAllocEnv (getFullFileSpec badAllocEnv ''src'') \<and>
   \<not> isOption ''*.h''"
  by (simp add: ProcessCommandLine_def badAllocEnv_def sampleEnv_def newExec_def recordArg_def
      isOption_def cstrAt_def)

end
